theory Spec2Isabelle
  imports Complex_Main "HOL-Library.Word"
begin

section \<open>Firmware-version discovery and fingerprint matching (selfdrive/car/fw\_versions.py)\<close>

subsection \<open>Data model\<close>

text \<open>
  Modelled from the spec: the enumeration \<^verbatim>\<open>car.CarParams.Ecu\<close> of the capnp schema,
  which is not among the sources (the \<open>ecuType\<close> of the specification's \<open>EcuKey\<close>). The
  constructors below are the enumerants that \<^verbatim>\<open>fw_versions.py\<close> names; every other
  enumerant of the schema is \<open>ecuOrdinal n\<close>.
\<close>

datatype Ecu =
  engine | eps | esp | fwdRadar | fwdCamera | vsa | electricBrakeBooster | unknown
  | ecuOrdinal nat

type_synonym bytes = string
type_synonym address = "32 word"
type_synonym sub_address = "8 word"
type_synonym brand = string
type_synonym car_model = string

text \<open>A key of the observation dictionary: the Python tuple \<^verbatim>\<open>(addr, sub_addr)\<close>.\<close>

type_synonym addr_key = "address \<times> sub_address option"

text \<open>A key of a fingerprint: the Python tuple \<^verbatim>\<open>(ecu_type, addr, sub_addr)\<close>.\<close>

type_synonym ecu_key = "Ecu \<times> address \<times> sub_address option"

text \<open>An element of the query plan: the Python tuple \<^verbatim>\<open>(brand, addr, sub_addr)\<close>.\<close>

type_synonym brand_addr = "brand \<times> address \<times> sub_address option"

text \<open>
  Modelled from the spec: the struct \<^verbatim>\<open>car.CarParams.CarFw\<close> of the capnp schema, which
  is not among the sources. Its fields are those that \<^verbatim>\<open>fw_versions.py\<close> reads and
  writes; \<open>address\<close> is an unsigned 32-bit and \<open>subAddress\<close> an unsigned 8-bit integer, as
  in the specification's \<open>EcuAddress\<close>.
\<close>

record CarFw =
  ecu :: Ecu
  fwVersion :: bytes
  address :: address
  subAddress :: sub_address

text \<open>
  Modelled from the spec: \<^verbatim>\<open>CarFw.new_message()\<close> of the capnp runtime, which is not
  among the sources. Every field of a fresh message holds its zero default (\<open>eps\<close>,
  the schema's first enumerant, the empty data, 0 and 0); the main block of \<^verbatim>\<open>fw_versions.py\<close> reads a
  \<open>subAddress\<close> of 0 as no sub-address.
\<close>

definition new_message :: CarFw where
  "new_message = \<lparr>ecu = eps, fwVersion = [], address = 0, subAddress = 0\<rparr>"

text \<open>
  The names of \<^verbatim>\<open>selfdrive.car.toyota.values.CAR\<close> that the matcher reads. The module
  is a parameter of the matcher (\<open>CHR_car\<close> is \<^verbatim>\<open>CAR.CHR\<close>).
\<close>

record TOYOTA_CAR =
  RAV4 :: car_model
  COROLLA :: car_model
  HIGHLANDER :: car_model
  COROLLA_TSS2 :: car_model
  CHR_car :: car_model

subsection \<open>Python dictionaries\<close>

text \<open>
  A \<^verbatim>\<open>dict\<close> is an association list in insertion order. \<open>dict_set\<close> is
  \<^verbatim>\<open>d[k] = v\<close>: an existing key keeps its position and takes the new value, a new key
  goes to the end. \<open>dict_update\<close> is \<^verbatim>\<open>d.update(e)\<close>.
\<close>

type_synonym ('k, 'v) dict = "('k \<times> 'v) list"

definition dict_get :: "('k, 'v) dict \<Rightarrow> 'k \<Rightarrow> 'v option" where
  "dict_get d k = map_of d k"

fun dict_set :: "('k, 'v) dict \<Rightarrow> 'k \<Rightarrow> 'v \<Rightarrow> ('k, 'v) dict" where
  "dict_set [] k v = [(k, v)]"
| "dict_set ((k', v') # d) k v = (if k' = k then (k, v) # d else (k', v') # dict_set d k v)"

fun dict_update :: "('k, 'v) dict \<Rightarrow> ('k, 'v) dict \<Rightarrow> ('k, 'v) dict" where
  "dict_update d [] = d"
| "dict_update d ((k, v) # e) = dict_update (dict_set d k v) e"

definition dict_keys :: "('k, 'v) dict \<Rightarrow> 'k list" where
  "dict_keys d = map fst d"

definition dict_values :: "('k, 'v) dict \<Rightarrow> 'v list" where
  "dict_values d = map snd d"

text \<open>A well-formed dictionary has no key twice.\<close>

definition dict_wf :: "('k, 'v) dict \<Rightarrow> bool" where
  "dict_wf d = distinct (map fst d)"

subsection \<open>The matcher: \<^verbatim>\<open>match_fw_to_car\<close>\<close>

type_synonym fingerprint = "(ecu_key, bytes list) dict"
type_synonym fw_table = "(car_model, fingerprint) dict"

text \<open>Lines 124 to 128: the observation dictionary, a sub-address 0 read as \<^verbatim>\<open>None\<close>.\<close>

fun fw_versions_dict_loop :: "(addr_key, bytes) dict \<Rightarrow> CarFw list \<Rightarrow> (addr_key, bytes) dict" where
  "fw_versions_dict_loop d [] = d"
| "fw_versions_dict_loop d (fw # fws) =
     (let addr = address fw;
          sub_addr = (if subAddress fw \<noteq> 0 then Some (subAddress fw) else None)
      in fw_versions_dict_loop (dict_set d (addr, sub_addr) (fwVersion fw)) fws)"

definition ESSENTIAL_ECUS :: "Ecu list" where
  "ESSENTIAL_ECUS = [engine, eps, esp, fwdRadar, fwdCamera, vsa, electricBrakeBooster]"

text \<open>\<^verbatim>\<open>found_version not in expected_versions\<close>; \<^verbatim>\<open>None\<close> is no byte string.\<close>

definition not_in_versions :: "bytes option \<Rightarrow> bytes list \<Rightarrow> bool" where
  "not_in_versions found_version expected_versions =
     (case found_version of None \<Rightarrow> True | Some v \<Rightarrow> v \<notin> set expected_versions)"

text \<open>
  Lines 131 to 149, the loop over one candidate's fingerprint. The result is \<open>True\<close>
  when the loop appends the candidate to \<^verbatim>\<open>invalid\<close> (and breaks).
\<close>

fun fws_loop :: "TOYOTA_CAR \<Rightarrow> (addr_key, bytes) dict \<Rightarrow> car_model \<Rightarrow> fingerprint \<Rightarrow> bool" where
  "fws_loop T d candidate [] = False"
| "fws_loop T d candidate ((ecu_k, expected_versions) # fws) =
     (let ecu_type = fst ecu_k;
          addr = snd ecu_k;
          found_version = dict_get d addr
      in if ecu_type = esp \<and> candidate \<in> set [RAV4 T, COROLLA T, HIGHLANDER T]
            \<and> found_version = None
         then fws_loop T d candidate fws
         else if ecu_type = engine \<and> candidate \<in> set [COROLLA_TSS2 T, CHR_car T]
            \<and> found_version = None
         then fws_loop T d candidate fws
         else if ecu_type \<notin> set ESSENTIAL_ECUS \<and> found_version = None
         then fws_loop T d candidate fws
         else if not_in_versions found_version expected_versions
         then True
         else fws_loop T d candidate fws)"

text \<open>Lines 130 to 149, the loop over the candidates; the result is \<^verbatim>\<open>invalid\<close>.\<close>

fun candidates_loop ::
  "TOYOTA_CAR \<Rightarrow> (addr_key, bytes) dict \<Rightarrow> car_model list \<Rightarrow> fw_table \<Rightarrow> car_model list" where
  "candidates_loop T d invalid [] = invalid"
| "candidates_loop T d invalid ((candidate, fws) # rest) =
     candidates_loop T d
       (if fws_loop T d candidate fws then invalid @ [candidate] else invalid) rest"

text \<open>
  \<^verbatim>\<open>match_fw_to_car(fw_versions)\<close>, with the module constants \<^verbatim>\<open>TOYOTA\<close> and
  \<^verbatim>\<open>FW_VERSIONS\<close> as parameters.
\<close>

definition match_fw_to_car :: "TOYOTA_CAR \<Rightarrow> fw_table \<Rightarrow> CarFw list \<Rightarrow> car_model set" where
  "match_fw_to_car T FW_VERSIONS fw_versions =
     (let candidates = FW_VERSIONS;
          fw_versions_dict = fw_versions_dict_loop [] fw_versions;
          invalid = candidates_loop T fw_versions_dict [] candidates
      in set (dict_keys candidates) - set invalid)"

text \<open>The matcher's lookup for a key: lines 124 to 128, then line 134.\<close>

definition observed :: "CarFw list \<Rightarrow> addr_key \<Rightarrow> bytes option" where
  "observed fw_versions k = dict_get (fw_versions_dict_loop [] fw_versions) k"

text \<open>The two allow-lists of lines 136 and 140, without their test of the observation.\<close>

definition allow_listed :: "TOYOTA_CAR \<Rightarrow> car_model \<Rightarrow> Ecu \<Rightarrow> bool" where
  "allow_listed T candidate ecu_type =
     (ecu_type = esp \<and> candidate \<in> set [RAV4 T, COROLLA T, HIGHLANDER T]
      \<or> ecu_type = engine \<and> candidate \<in> set [COROLLA_TSS2 T, CHR_car T])"

text \<open>An instance of the Toyota names, for the concrete runs below.\<close>

definition toyota_names :: TOYOTA_CAR where
  "toyota_names = \<lparr>RAV4 = ''TOYOTA RAV4 2017'', COROLLA = ''TOYOTA COROLLA 2017'',
     HIGHLANDER = ''TOYOTA HIGHLANDER 2017'', COROLLA_TSS2 = ''TOYOTA COROLLA TSS2 2019'',
     CHR_car = ''TOYOTA C-HR 2018''\<rparr>"

subsection \<open>The planner: lines 155 to 180 of \<^verbatim>\<open>get_fw_versions\<close>\<close>

text \<open>
  The keys that the planner handles are Python tuples of two shapes: the keys that it
  stores in \<^verbatim>\<open>ecu_types\<close> are pairs \<^verbatim>\<open>(addr, sub_addr)\<close>, and the value \<^verbatim>\<open>a\<close> that it
  looks up there is a triple \<^verbatim>\<open>(brand, addr, sub_addr)\<close>. Python compares tuples of
  different lengths as unequal; the two constructors keep that comparison.
\<close>

datatype py_tuple =
  Tuple2 address "sub_address option"
  | Tuple3 brand address "sub_address option"

text \<open>
  The value of \<^verbatim>\<open>get_attr_from_cars('FW_VERSIONS', combine_brands=False)\<close>, a parameter
  here: brand, then model, then fingerprint.
\<close>

type_synonym brand_table = "(brand, fw_table) dict"

record plan_state =
  ecu_types :: "(py_tuple, Ecu) dict"
  addrs :: "brand_addr list list"
  parallel_addrs :: "brand_addr list"

text \<open>Lines 169 to 178, the body of the innermost loop.\<close>

definition keys_body :: "brand \<Rightarrow> plan_state \<Rightarrow> ecu_key \<Rightarrow> plan_state" where
  "keys_body brand st k =
     (case k of (ecu_type, addr, sub_addr) \<Rightarrow>
        let a = (brand, addr, sub_addr);
            st1 = (if Tuple3 brand addr sub_addr \<notin> set (dict_keys (ecu_types st))
                   then st\<lparr>ecu_types := dict_set (ecu_types st) (Tuple2 addr sub_addr) ecu_type\<rparr>
                   else st)
        in if sub_addr = None
           then (if a \<notin> set (parallel_addrs st1)
                 then st1\<lparr>parallel_addrs := parallel_addrs st1 @ [a]\<rparr> else st1)
           else (if [a] \<notin> set (addrs st1)
                 then st1\<lparr>addrs := addrs st1 @ [[a]]\<rparr> else st1))"

text \<open>Line 168, line 167 and line 166: the three loops.\<close>

definition keys_loop :: "brand \<Rightarrow> plan_state \<Rightarrow> fingerprint \<Rightarrow> plan_state" where
  "keys_loop brand st c = foldl (keys_body brand) st (dict_keys c)"

definition cars_loop :: "brand \<Rightarrow> plan_state \<Rightarrow> fw_table \<Rightarrow> plan_state" where
  "cars_loop brand st brand_versions = foldl (keys_loop brand) st (dict_values brand_versions)"

definition brands_loop :: "plan_state \<Rightarrow> brand_table \<Rightarrow> plan_state" where
  "brands_loop st versions =
     foldl (\<lambda>st (brand, brand_versions). cars_loop brand st brand_versions) st versions"

text \<open>Lines 162 to 164: the table that the planner iterates.\<close>

definition versions_with_extra :: "brand_table \<Rightarrow> brand_table option \<Rightarrow> brand_table" where
  "versions_with_extra versions extra =
     (case extra of None \<Rightarrow> versions | Some e \<Rightarrow> dict_update versions e)"

text \<open>Lines 155 to 166: the state of the planner after its loops.\<close>

definition planner :: "brand_table \<Rightarrow> brand_table option \<Rightarrow> plan_state" where
  "planner versions extra =
     brands_loop \<lparr>ecu_types = [], addrs = [], parallel_addrs = []\<rparr>
       (versions_with_extra versions extra)"

text \<open>Line 180, \<^verbatim>\<open>addrs.insert(0, parallel_addrs)\<close>: the plan.\<close>

definition plan_of :: "plan_state \<Rightarrow> brand_addr list list" where
  "plan_of st = parallel_addrs st # addrs st"

text \<open>The plan that \<^verbatim>\<open>get_fw_versions\<close> executes.\<close>

definition query_plan :: "brand_table \<Rightarrow> brand_table option \<Rightarrow> brand_addr list list" where
  "query_plan versions extra = plan_of (planner versions extra)"

subsection \<open>The orchestrator: lines 182 to 194\<close>

text \<open>
  \<^verbatim>\<open>chunks(l, n)\<close>, the slices \<^verbatim>\<open>l[i:i + n]\<close> for \<^verbatim>\<open>i\<close> in \<^verbatim>\<open>range(0, len(l), n)\<close>. Its
  only call takes the default \<open>n = 128\<close>; with \<open>n = 0\<close> Python's \<^verbatim>\<open>range\<close> raises, a
  call that the module never makes, and the function below returns no slice.
\<close>

function chunks :: "'a list \<Rightarrow> nat \<Rightarrow> 'a list list" where
  "chunks l n = (if l = [] \<or> n = 0 then [] else take n l # chunks (drop n l) n)"
  by pat_completeness auto
termination
  by (relation "measure (\<lambda>(l, n). length l)") auto

declare chunks.simps [simp del]

text \<open>
  One invocation of the transport: the arguments of \<^verbatim>\<open>IsoTpParallelQuery(...)\<close> that
  vary (the address list, the request and the response sequence) and the timeout of
  \<^verbatim>\<open>get_data\<close>. The sockets, the bus and the debug flag are the same in every
  invocation.
\<close>

record 't call =
  c_addrs :: "addr_key list"
  c_request :: "bytes list"
  c_response :: "bytes list"
  c_timeout :: 't

text \<open>
  The transport is a parameter: from the state of the bus and a call it gives the new
  state of the bus and either the dictionary that \<^verbatim>\<open>get_data\<close> returns (\<open>Inr\<close>) or the
  \<^verbatim>\<open>Exception\<close> that the constructor or \<^verbatim>\<open>get_data\<close> raises (\<open>Inl\<close>).
\<close>

type_synonym ('s, 't, 'x) transport = "'s \<Rightarrow> 't call \<Rightarrow> ('x + (addr_key, bytes) dict) \<times> 's"

text \<open>
  A Request Catalog entry is \<^verbatim>\<open>(brand, request, response)\<close>. The module constant
  \<^verbatim>\<open>REQUESTS\<close> is built from constants of \<^verbatim>\<open>panda.python.uds\<close>; it is a parameter of
  the orchestrator.
\<close>

type_synonym request_entry = "brand \<times> bytes list \<times> bytes list"

text \<open>
  The state of the orchestration loop: the dictionary \<^verbatim>\<open>fw_versions\<close>, the state of the
  bus, the log of the invocations made so far, each with the index \<^verbatim>\<open>i\<close> of its group,
  and the number of warnings logged.
\<close>

record ('s, 't) query_state =
  q_fw_versions :: "(addr_key, bytes) dict"
  q_world :: 's
  q_calls :: "(nat \<times> 't call) list"
  q_warnings :: nat

text \<open>Line 187: \<^verbatim>\<open>[(a, s) for (b, a, s) in addr_chunk if b in (brand, 'any')]\<close>.\<close>

definition chunk_addrs :: "brand \<Rightarrow> brand_addr list \<Rightarrow> addr_key list" where
  "chunk_addrs brand addr_chunk =
     map (\<lambda>(b, a, s). (a, s)) (filter (\<lambda>(b, a, s). b \<in> set [brand, ''any'']) addr_chunk)"

text \<open>Lines 186 to 194, the body of the loop over the catalog.\<close>

definition request_body ::
  "('s, 't::semiring_numeral, 'x) transport \<Rightarrow> 't \<Rightarrow> nat \<Rightarrow> brand_addr list \<Rightarrow>
   ('s, 't) query_state \<Rightarrow> request_entry \<Rightarrow> ('s, 't) query_state" where
  "request_body tr timeout i addr_chunk st r =
     (case r of (brand, request, response) \<Rightarrow>
        let addrs' = chunk_addrs brand addr_chunk
        in if addrs' \<noteq> []
           then
             let t = (if i = 0 then 2 * timeout else timeout);
                 c = \<lparr>c_addrs = addrs', c_request = request, c_response = response,
                      c_timeout = t\<rparr>;
                 st1 = st\<lparr>q_world := snd (tr (q_world st) c), q_calls := q_calls st @ [(i, c)]\<rparr>
             in (case fst (tr (q_world st) c) of
                   Inr data \<Rightarrow> st1\<lparr>q_fw_versions := dict_update (q_fw_versions st1) data\<rparr>
                 | Inl e \<Rightarrow> st1\<lparr>q_warnings := q_warnings st1 + 1\<rparr>)
           else st)"

text \<open>Line 185, line 184 and line 183: the three loops.\<close>

definition requests_loop ::
  "('s, 't::semiring_numeral, 'x) transport \<Rightarrow> 't \<Rightarrow> request_entry list \<Rightarrow> nat \<Rightarrow>
   ('s, 't) query_state \<Rightarrow> brand_addr list \<Rightarrow> ('s, 't) query_state" where
  "requests_loop tr timeout REQUESTS i st addr_chunk =
     foldl (request_body tr timeout i addr_chunk) st REQUESTS"

definition chunks_loop ::
  "('s, 't::semiring_numeral, 'x) transport \<Rightarrow> 't \<Rightarrow> request_entry list \<Rightarrow>
   ('s, 't) query_state \<Rightarrow> nat \<times> brand_addr list \<Rightarrow> ('s, 't) query_state" where
  "chunks_loop tr timeout REQUESTS st g =
     (case g of (i, addr) \<Rightarrow>
        foldl (requests_loop tr timeout REQUESTS i) st (chunks addr 128))"

definition query_loop ::
  "('s, 't::semiring_numeral, 'x) transport \<Rightarrow> 't \<Rightarrow> request_entry list \<Rightarrow>
   ('s, 't) query_state \<Rightarrow> brand_addr list list \<Rightarrow> ('s, 't) query_state" where
  "query_loop tr timeout REQUESTS st plan =
     foldl (chunks_loop tr timeout REQUESTS) st (enumerate 0 plan)"

subsection \<open>The result: lines 196 to 210\<close>

text \<open>
  What \<^verbatim>\<open>get_fw_versions\<close> can raise: the \<^verbatim>\<open>KeyError\<close> of \<^verbatim>\<open>ecu_types[addr]\<close>, or an
  exception of the transport that it did not catch.
\<close>

datatype 'x py_error = KeyError addr_key | Raised 'x

text \<open>Lines 199 to 206, the message built for one observation.\<close>

definition car_fw_body :: "(py_tuple, Ecu) dict \<Rightarrow> addr_key \<times> bytes \<Rightarrow> 'x py_error + CarFw" where
  "car_fw_body types item =
     (case item of (addr, version) \<Rightarrow>
        (case dict_get types (Tuple2 (fst addr) (snd addr)) of
           None \<Rightarrow> Inl (KeyError addr)
         | Some ecu_type \<Rightarrow>
             let f = new_message;
                 f = f\<lparr>ecu := ecu_type\<rparr>;
                 f = f\<lparr>fwVersion := version\<rparr>;
                 f = f\<lparr>address := fst addr\<rparr>;
                 f = (case snd addr of None \<Rightarrow> f | Some s \<Rightarrow> f\<lparr>subAddress := s\<rparr>)
             in Inr f))"

text \<open>Lines 197 to 208, the loop over \<^verbatim>\<open>fw_versions.items()\<close>.\<close>

fun car_fw_loop ::
  "(py_tuple, Ecu) dict \<Rightarrow> CarFw list \<Rightarrow> (addr_key, bytes) dict \<Rightarrow> 'x py_error + CarFw list" where
  "car_fw_loop types car_fw [] = Inr car_fw"
| "car_fw_loop types car_fw (item # rest) =
     (case car_fw_body types item of
        Inl e \<Rightarrow> Inl e
      | Inr f \<Rightarrow> car_fw_loop types (car_fw @ [f]) rest)"

text \<open>
  \<^verbatim>\<open>get_fw_versions(logcan, sendcan, bus, extra, timeout)\<close>. The first component is what
  the function returns or raises; the second is the final state of the orchestration
  loop (the bus, the log of invocations and the warnings), which the caller of the Python
  function observes as effects.
\<close>

definition initial_query_state :: "'s \<Rightarrow> ('s, 't) query_state" where
  "initial_query_state w = \<lparr>q_fw_versions = [], q_world = w, q_calls = [], q_warnings = 0\<rparr>"

definition orchestrate ::
  "('s, 't::semiring_numeral, 'x) transport \<Rightarrow> 's \<Rightarrow> request_entry list \<Rightarrow>
   brand_table \<Rightarrow> brand_table option \<Rightarrow> 't \<Rightarrow> ('s, 't) query_state" where
  "orchestrate tr w REQUESTS versions extra timeout =
     query_loop tr timeout REQUESTS (initial_query_state w)
       (query_plan versions extra)"

definition get_fw_versions ::
  "('s, 't::semiring_numeral, 'x) transport \<Rightarrow> 's \<Rightarrow> request_entry list \<Rightarrow>
   brand_table \<Rightarrow> brand_table option \<Rightarrow> 't \<Rightarrow> ('x py_error + CarFw list) \<times> ('s, 't) query_state" where
  "get_fw_versions tr w REQUESTS versions extra timeout =
     (let st = planner versions extra;
          q = orchestrate tr w REQUESTS versions extra timeout
      in (car_fw_loop (ecu_types st) [] (q_fw_versions q), q))"

subsection \<open>Notions of the claims about the planner\<close>

text \<open>
  The entries that the three loops of the planner visit, in the order of iteration: every
  key of every model of every brand, with its brand.
\<close>

definition table_entries :: "brand_table \<Rightarrow> (brand \<times> ecu_key) list" where
  "table_entries versions =
     concat (map (\<lambda>(brand, brand_versions).
       concat (map (\<lambda>c. map (\<lambda>k. (brand, k)) (dict_keys c)) (dict_values brand_versions)))
       versions)"

text \<open>The triple \<^verbatim>\<open>a = (brand, addr, sub_addr)\<close> of an entry, and the triples of a table.\<close>

fun triple_of :: "brand \<times> ecu_key \<Rightarrow> brand_addr" where
  "triple_of (brand, ecu_type, addr, sub_addr) = (brand, addr, sub_addr)"

definition table_triples :: "brand_table \<Rightarrow> brand_addr list" where
  "table_triples versions = map triple_of (table_entries versions)"

text \<open>The triples of the table that \<^verbatim>\<open>get_fw_versions\<close> iterates.\<close>

definition probed :: "brand_table \<Rightarrow> brand_table option \<Rightarrow> brand_addr list" where
  "probed versions extra = table_triples (versions_with_extra versions extra)"

text \<open>One pass of the innermost loop body, on an entry.\<close>

definition entry_step :: "plan_state \<Rightarrow> brand \<times> ecu_key \<Rightarrow> plan_state" where
  "entry_step st e = keys_body (fst e) st (snd e)"

text \<open>No key of \<^verbatim>\<open>ecu_types\<close> is a triple.\<close>

definition pairs_only :: "(py_tuple, Ecu) dict \<Rightarrow> bool" where
  "pairs_only d = (\<forall>k \<in> set (dict_keys d). \<exists>a s. k = Tuple2 a s)"

text \<open>A plan group holds a pair \<^verbatim>\<open>(addr, sub_addr)\<close>, under any brand.\<close>

definition group_has :: "addr_key \<Rightarrow> brand_addr list \<Rightarrow> bool" where
  "group_has p g = (p \<in> set (map snd g))"

text \<open>
  A run of the module's scan mode: a table with one Toyota model, and the extra probe set
  \<^verbatim>\<open>{"any": {"debug": ...}}\<close> of the main block, cut down to two of its keys.
\<close>

definition scan_versions :: brand_table where
  "scan_versions = [(''toyota'', [(''TOYOTA RAV4 2017'',
      [((engine, 0x700, None), [''e'']), ((fwdCamera, 0x750, Some 0x6d), [''c''])])])]"

definition scan_extra :: brand_table where
  "scan_extra = [(''any'', [(''debug'',
      [((unknown, 0x700, None), []), ((unknown, 0x750, Some 0x6d), [])])])]"

subsection \<open>Notions of the claims about the orchestrator\<close>

text \<open>
  The invocation that the loop body makes for group \<open>i\<close>, a chunk and a catalog entry:
  lines 187, 190 and 191.
\<close>

definition the_call :: "'t::semiring_numeral \<Rightarrow> nat \<Rightarrow> brand_addr list \<Rightarrow> request_entry \<Rightarrow> 't call" where
  "the_call timeout i addr_chunk r =
     (case r of (brand, request, response) \<Rightarrow>
        \<lparr>c_addrs = chunk_addrs brand addr_chunk, c_request = request, c_response = response,
         c_timeout = (if i = 0 then 2 * timeout else timeout)\<rparr>)"

text \<open>
  The invocations that the specification prescribes: for each chunk and each catalog
  entry, in order, one invocation when the filtered address list is not empty, and none
  otherwise; for each group, its chunks of at most 128 addresses; for the plan, its groups
  with their indices.
\<close>

definition chunk_calls ::
  "'t::semiring_numeral \<Rightarrow> request_entry list \<Rightarrow> nat \<Rightarrow> brand_addr list \<Rightarrow> (nat \<times> 't call) list" where
  "chunk_calls timeout REQUESTS i addr_chunk =
     concat (map (\<lambda>r. if chunk_addrs (fst r) addr_chunk \<noteq> []
                        then [(i, the_call timeout i addr_chunk r)] else []) REQUESTS)"

definition group_calls ::
  "'t::semiring_numeral \<Rightarrow> request_entry list \<Rightarrow> nat \<times> brand_addr list \<Rightarrow> (nat \<times> 't call) list" where
  "group_calls timeout REQUESTS g =
     concat (map (chunk_calls timeout REQUESTS (fst g)) (chunks (snd g) 128))"

definition planned_calls ::
  "'t::semiring_numeral \<Rightarrow> request_entry list \<Rightarrow> brand_addr list list \<Rightarrow> (nat \<times> 't call) list" where
  "planned_calls timeout REQUESTS plan =
     concat (map (group_calls timeout REQUESTS) (enumerate 0 plan))"

text \<open>
  What one invocation does to the state of the loop: lines 190 to 194. A returned
  dictionary is merged into \<^verbatim>\<open>fw_versions\<close>; a raised exception is logged as a warning.
\<close>

definition exec_call ::
  "('s, 't, 'x) transport \<Rightarrow> ('s, 't) query_state \<Rightarrow> nat \<times> 't call \<Rightarrow> ('s, 't) query_state" where
  "exec_call tr st ic =
     (let st1 = st\<lparr>q_world := snd (tr (q_world st) (snd ic)), q_calls := q_calls st @ [ic]\<rparr>
      in case fst (tr (q_world st) (snd ic)) of
           Inr data \<Rightarrow> st1\<lparr>q_fw_versions := dict_update (q_fw_versions st1) data\<rparr>
         | Inl e \<Rightarrow> st1\<lparr>q_warnings := q_warnings st1 + 1\<rparr>)"

text \<open>
  What the transport answers to a list of invocations made one after the other, the
  dictionaries among these answers and the exceptions among them.
\<close>

fun outcomes :: "('s, 't, 'x) transport \<Rightarrow> 's \<Rightarrow> 't call list \<Rightarrow> ('x + (addr_key, bytes) dict) list" where
  "outcomes tr w [] = []"
| "outcomes tr w (c # cs) = fst (tr w c) # outcomes tr (snd (tr w c)) cs"

fun successes :: "('x + 'd) list \<Rightarrow> 'd list" where
  "successes [] = []"
| "successes (Inr d # os) = d # successes os"
| "successes (Inl e # os) = successes os"

fun failures :: "('x + 'd) list \<Rightarrow> 'x list" where
  "failures [] = []"
| "failures (Inr d # os) = failures os"
| "failures (Inl e # os) = e # failures os"

text \<open>
  The module constant \<^verbatim>\<open>REQUESTS\<close>, for the concrete runs below: the constants of
  \<^verbatim>\<open>panda.python.uds\<close> are written out with their ISO 14229 values (tester present 0x3E,
  diagnostic session control 0x10 with sessions 1 and 3, read data by identifier 0x22,
  identifiers 0xF181 and 0xF187).
\<close>

definition REQUESTS :: "request_entry list" where
  "REQUESTS =
     [(''hyundai'', [[CHR 0x22, CHR 0xF1, CHR 0xA0]], [[CHR 0x62]]),
      (''hyundai'', [[CHR 0x22, CHR 0xF1, CHR 0x00]], [[CHR 0x62]]),
      (''hyundai'',
       [[CHR 0x22, CHR 0xF1, CHR 0x87, CHR 0xF1, CHR 0x81, CHR 0xF1, CHR 0x00, CHR 0xF1, CHR 0xA0]],
       [[CHR 0x62]]),
      (''honda'', [[CHR 0x22, CHR 0xF1, CHR 0x81]], [[CHR 0x62, CHR 0xF1, CHR 0x81]]),
      (''toyota'', [[CHR 0x3E], [CHR 0x1A, CHR 0x88, CHR 0x01]],
       [[CHR 0x7E], [CHR 0x5A, CHR 0x88, CHR 0x01]]),
      (''toyota'', [[CHR 0x3E], [CHR 0x09, CHR 0x04]], [[CHR 0x7E], [CHR 0x49, CHR 0x04]]),
      (''toyota'',
       [[CHR 0x3E, CHR 0x00], [CHR 0x10, CHR 0x01], [CHR 0x10, CHR 0x03],
        [CHR 0x22, CHR 0xF1, CHR 0x81]],
       [[CHR 0x7E, CHR 0x00], [CHR 0x50, CHR 0x01, CHR 0x00, CHR 0x32, CHR 0x01, CHR 0xF4],
        [CHR 0x50, CHR 0x03, CHR 0x00, CHR 0x32, CHR 0x01, CHR 0xF4],
        [CHR 0x62, CHR 0xF1, CHR 0x81]]),
      (''subaru'', [[CHR 0x3E, CHR 0x00], [CHR 0x22, CHR 0xF1, CHR 0x82]],
       [[CHR 0x7E, CHR 0x00], [CHR 0x62, CHR 0xF1, CHR 0x82]])]"

text \<open>
  A transport for the concrete runs: it raises for the OBD dialect of Toyota, and
  otherwise answers every address asked with the last response prefix of the dialect.
\<close>

definition demo_transport :: "(nat, real, string) transport" where
  "demo_transport w c =
     (if c_request c = [[CHR 0x3E], [CHR 0x09, CHR 0x04]] then Inl ''no response''
      else Inr (map (\<lambda>k. (k, last (c_response c))) (c_addrs c)),
      Suc w)"

text \<open>
  The dictionaries that the transport returns during a run of \<^verbatim>\<open>get_fw_versions\<close>, in
  the order of the invocations.
\<close>

definition merged_results ::
  "('s, 't::semiring_numeral, 'x) transport \<Rightarrow> 's \<Rightarrow> request_entry list \<Rightarrow>
   brand_table \<Rightarrow> brand_table option \<Rightarrow> 't \<Rightarrow> (addr_key, bytes) dict list" where
  "merged_results tr w R versions extra timeout =
     successes (outcomes tr w (map snd (planned_calls timeout R (query_plan versions extra))))"

subsection \<open>Notions of the claims about the result\<close>

text \<open>The key under which the matcher files a message: lines 126 and 127.\<close>

definition car_fw_key :: "CarFw \<Rightarrow> addr_key" where
  "car_fw_key fw = (address fw, if subAddress fw \<noteq> 0 then Some (subAddress fw) else None)"

text \<open>
  The contract of the transport that the specification gives: a returned dictionary has
  keys among the addresses of the invocation.
\<close>

definition answers_asked :: "('s, 't, 'x) transport \<Rightarrow> bool" where
  "answers_asked tr = (\<forall>w c d. fst (tr w c) = Inr d \<longrightarrow> set (dict_keys d) \<subseteq> set (c_addrs c))"

section \<open>Properties of the matcher\<close>

subsection \<open>The loops of the matcher\<close>

lemma fws_loop_Cons: "fws_loop T d c (e # ys) = (fws_loop T d c [e] \<or> fws_loop T d c ys)"
  by (cases e) (auto simp: Let_def)

lemma fws_loop_append: "fws_loop T d c (xs @ ys) = (fws_loop T d c xs \<or> fws_loop T d c ys)"
proof (induction xs)
  case Nil
  show ?case by simp
next
  case (Cons e xs)
  have "fws_loop T d c ((e # xs) @ ys) = (fws_loop T d c [e] \<or> fws_loop T d c (xs @ ys))"
    using fws_loop_Cons [of T d c e "xs @ ys"] by simp
  also have "\<dots> = (fws_loop T d c [e] \<or> fws_loop T d c xs \<or> fws_loop T d c ys)"
    using Cons.IH by simp
  also have "\<dots> = (fws_loop T d c (e # xs) \<or> fws_loop T d c ys)"
    using fws_loop_Cons [of T d c e xs] by simp
  finally show ?case .
qed

lemma fws_loop_iff: "fws_loop T d c fws = (\<exists>e \<in> set fws. fws_loop T d c [e])"
proof (induction fws)
  case Nil
  show ?case by simp
next
  case (Cons e fws)
  show ?case using fws_loop_Cons [of T d c e fws] Cons.IH by auto
qed

lemma set_candidates_loop:
  "set (candidates_loop T d invalid cs) =
     set invalid \<union> {c. \<exists>fws. (c, fws) \<in> set cs \<and> fws_loop T d c fws}"
proof (induction cs arbitrary: invalid)
  case Nil
  show ?case by simp
next
  case (Cons p cs)
  obtain c0 f0 where p: "p = (c0, f0)" by (cases p)
  show ?case
  proof (cases "fws_loop T d c0 f0")
    case True
    then show ?thesis unfolding p by (auto simp: Cons.IH)
  next
    case False
    then show ?thesis unfolding p by (auto simp: Cons.IH)
  qed
qed

lemma match_iff:
  "m \<in> match_fw_to_car T FW fw \<longleftrightarrow>
     m \<in> fst ` set FW \<and> (\<forall>fws. (m, fws) \<in> set FW \<longrightarrow> \<not> fws_loop T (fw_versions_dict_loop [] fw) m fws)"
  by (auto simp: match_fw_to_car_def Let_def set_candidates_loop dict_keys_def)

lemma match_skip:
  assumes "\<not> fws_loop T (fw_versions_dict_loop [] fw) m [e]"
  shows "match_fw_to_car T (A @ (m, pre @ e # post) # B) fw = match_fw_to_car T (A @ (m, pre @ post) # B) fw"
proof -
  have "fws_loop T (fw_versions_dict_loop [] fw) m (pre @ e # post) = fws_loop T (fw_versions_dict_loop [] fw) m (pre @ post)"
    using assms fws_loop_append [of T _ m pre "e # post"] fws_loop_Cons [of T _ m e post]
      fws_loop_append [of T _ m pre post] by simp
  then show ?thesis
    by (auto simp: match_iff)
qed

lemma match_excl:
  assumes "(m, fws) \<in> set FW" "e \<in> set fws" "fws_loop T (fw_versions_dict_loop [] fw) m [e]"
  shows "m \<notin> match_fw_to_car T FW fw"
  using assms fws_loop_iff [of T _ m fws] by (auto simp: match_iff)

subsection \<open>One entry of a fingerprint\<close>

lemma single_unobserved_skip:
  "observed fw (snd k) = None \<Longrightarrow> allow_listed T m (fst k) \<or> fst k \<notin> set ESSENTIAL_ECUS \<Longrightarrow>
   \<not> fws_loop T (fw_versions_dict_loop [] fw) m [(k, ex)]"
  by (auto simp: observed_def allow_listed_def Let_def)

lemma single_unobserved_invalid:
  "observed fw (snd k) = None \<Longrightarrow> \<not> allow_listed T m (fst k) \<Longrightarrow> fst k \<in> set ESSENTIAL_ECUS \<Longrightarrow>
   fws_loop T (fw_versions_dict_loop [] fw) m [(k, ex)]"
  by (auto simp: observed_def allow_listed_def Let_def not_in_versions_def)

lemma single_observed:
  "observed fw (snd k) = Some v \<Longrightarrow>
   fws_loop T (fw_versions_dict_loop [] fw) m [(k, ex)] = (v \<notin> set ex)"
  by (auto simp: observed_def Let_def not_in_versions_def)

subsection \<open>Claims about the matcher\<close>

text \<open>
  Claim C2. An entry whose key is observed with a version of its expected list does not
  disqualify its model: the matcher returns the same set as for the table without that
  entry. An entry whose key is observed with a version outside its expected list, or is
  not observed while no leniency rule applies, excludes its model from the returned set.
  With the single observation \<open>(addr1, None) \<mapsto> v1\<close> and one model that expects
  \<open>v1\<close> or \<open>v2\<close> of the engine at \<open>(addr1, None)\<close>, the model is returned; with
  \<open>v3\<close> observed, it is not.
\<close>

theorem match_fw_to_car_membership:
  "(observed fw (snd k) = Some v \<and> v \<in> set ex \<longrightarrow>
      match_fw_to_car T (A @ (m, pre @ (k, ex) # post) # B) fw
        = match_fw_to_car T (A @ (m, pre @ post) # B) fw)
   \<and> (observed fw (snd k) = Some v \<and> v \<notin> set ex \<and> (m, fws) \<in> set FW \<and> (k, ex) \<in> set fws \<longrightarrow>
      m \<notin> match_fw_to_car T FW fw)
   \<and> (observed fw (snd k) = None \<and> \<not> allow_listed T m (fst k) \<and> fst k \<in> set ESSENTIAL_ECUS
        \<and> (m, fws) \<in> set FW \<and> (k, ex) \<in> set fws \<longrightarrow>
      m \<notin> match_fw_to_car T FW fw)
   \<and> match_fw_to_car T [(m, [((engine, addr1, None), [''v1'', ''v2''])])]
        [new_message\<lparr>fwVersion := ''v1'', address := addr1\<rparr>] = {m}
   \<and> match_fw_to_car T [(m, [((engine, addr1, None), [''v1'', ''v2''])])]
        [new_message\<lparr>fwVersion := ''v3'', address := addr1\<rparr>] = {}"
proof (intro conjI impI)
  assume "observed fw (snd k) = Some v \<and> v \<in> set ex"
  then have "\<not> fws_loop T (fw_versions_dict_loop [] fw) m [(k, ex)]"
    using single_observed [of fw k v T m ex] by simp
  then show "match_fw_to_car T (A @ (m, pre @ (k, ex) # post) # B) fw
        = match_fw_to_car T (A @ (m, pre @ post) # B) fw"
    by (rule match_skip)
next
  assume a: "observed fw (snd k) = Some v \<and> v \<notin> set ex \<and> (m, fws) \<in> set FW \<and> (k, ex) \<in> set fws"
  then have "fws_loop T (fw_versions_dict_loop [] fw) m [(k, ex)]"
    using single_observed [of fw k v T m ex] by simp
  with a show "m \<notin> match_fw_to_car T FW fw"
    using match_excl [of m fws FW "(k, ex)" T fw] by simp
next
  assume a: "observed fw (snd k) = None \<and> \<not> allow_listed T m (fst k) \<and> fst k \<in> set ESSENTIAL_ECUS
        \<and> (m, fws) \<in> set FW \<and> (k, ex) \<in> set fws"
  then have "fws_loop T (fw_versions_dict_loop [] fw) m [(k, ex)]"
    using single_unobserved_invalid [of fw k T m ex] by simp
  with a show "m \<notin> match_fw_to_car T FW fw"
    using match_excl [of m fws FW "(k, ex)" T fw] by simp
next
  show "match_fw_to_car T [(m, [((engine, addr1, None), [''v1'', ''v2''])])]
        [new_message\<lparr>fwVersion := ''v1'', address := addr1\<rparr>] = {m}"
    by (simp add: match_fw_to_car_def dict_keys_def dict_get_def new_message_def
        not_in_versions_def ESSENTIAL_ECUS_def Let_def)
next
  show "match_fw_to_car T [(m, [((engine, addr1, None), [''v1'', ''v2''])])]
        [new_message\<lparr>fwVersion := ''v3'', address := addr1\<rparr>] = {}"
    by (simp add: match_fw_to_car_def dict_keys_def dict_get_def new_message_def
        not_in_versions_def ESSENTIAL_ECUS_def Let_def)
qed

text \<open>
  Claim C3. An unobserved entry of a non-essential ECU type does not affect its model (the
  matcher returns the same set as for the table without the entry); an unobserved entry of
  an essential type excludes its model, unless the pair of type and model is on an
  allow-list, in which case the entry does not affect the model either. The essential
  types are engine, eps, esp, fwdRadar, fwdCamera, vsa and electricBrakeBooster; the
  allow-lists are esp for RAV4, COROLLA and HIGHLANDER, and engine for COROLLA\_TSS2 and
  CHR.
\<close>

theorem match_fw_to_car_leniency:
  "(observed fw (snd k) = None \<and> fst k \<notin> set ESSENTIAL_ECUS \<longrightarrow>
      match_fw_to_car T (A @ (m, pre @ (k, ex) # post) # B) fw
        = match_fw_to_car T (A @ (m, pre @ post) # B) fw)
   \<and> (observed fw (snd k) = None \<and> fst k \<in> set ESSENTIAL_ECUS \<and> \<not> allow_listed T m (fst k)
        \<and> (m, fws) \<in> set FW \<and> (k, ex) \<in> set fws \<longrightarrow>
      m \<notin> match_fw_to_car T FW fw)
   \<and> (observed fw (snd k) = None \<and> allow_listed T m (fst k) \<longrightarrow>
      match_fw_to_car T (A @ (m, pre @ (k, ex) # post) # B) fw
        = match_fw_to_car T (A @ (m, pre @ post) # B) fw)
   \<and> set ESSENTIAL_ECUS = {engine, eps, esp, fwdRadar, fwdCamera, vsa, electricBrakeBooster}
   \<and> (allow_listed T m e \<longleftrightarrow>
        e = esp \<and> m \<in> {RAV4 T, COROLLA T, HIGHLANDER T}
        \<or> e = engine \<and> m \<in> {COROLLA_TSS2 T, CHR_car T})"
proof (intro conjI impI)
  assume "observed fw (snd k) = None \<and> fst k \<notin> set ESSENTIAL_ECUS"
  then have "\<not> fws_loop T (fw_versions_dict_loop [] fw) m [(k, ex)]"
    using single_unobserved_skip [of fw k T m ex] by simp
  then show "match_fw_to_car T (A @ (m, pre @ (k, ex) # post) # B) fw
        = match_fw_to_car T (A @ (m, pre @ post) # B) fw"
    by (rule match_skip)
next
  assume a: "observed fw (snd k) = None \<and> fst k \<in> set ESSENTIAL_ECUS \<and> \<not> allow_listed T m (fst k)
        \<and> (m, fws) \<in> set FW \<and> (k, ex) \<in> set fws"
  then have "fws_loop T (fw_versions_dict_loop [] fw) m [(k, ex)]"
    using single_unobserved_invalid [of fw k T m ex] by simp
  with a show "m \<notin> match_fw_to_car T FW fw"
    using match_excl [of m fws FW "(k, ex)" T fw] by simp
next
  assume "observed fw (snd k) = None \<and> allow_listed T m (fst k)"
  then have "\<not> fws_loop T (fw_versions_dict_loop [] fw) m [(k, ex)]"
    using single_unobserved_skip [of fw k T m ex] by simp
  then show "match_fw_to_car T (A @ (m, pre @ (k, ex) # post) # B) fw
        = match_fw_to_car T (A @ (m, pre @ post) # B) fw"
    by (rule match_skip)
next
  show "set ESSENTIAL_ECUS = {engine, eps, esp, fwdRadar, fwdCamera, vsa, electricBrakeBooster}"
    by (simp add: ESSENTIAL_ECUS_def)
next
  show "allow_listed T m e \<longleftrightarrow>
        e = esp \<and> m \<in> {RAV4 T, COROLLA T, HIGHLANDER T}
        \<or> e = engine \<and> m \<in> {COROLLA_TSS2 T, CHR_car T}"
    by (simp add: allow_listed_def)
qed

text \<open>
  Claim C9. The matcher returns a subset of the models of the table, and a model whose
  fingerprint has no entry is returned whatever was observed.
\<close>

theorem match_fw_to_car_subset:
  "match_fw_to_car T FW fw \<subseteq> set (dict_keys FW)
   \<and> (dict_wf FW \<and> (m, []) \<in> set FW \<longrightarrow> m \<in> match_fw_to_car T FW fw)"
proof (intro conjI impI)
  show "match_fw_to_car T FW fw \<subseteq> set (dict_keys FW)"
    by (simp add: match_fw_to_car_def Let_def)
next
  assume a: "dict_wf FW \<and> (m, []) \<in> set FW"
  then have "\<forall>fws. (m, fws) \<in> set FW \<longrightarrow> fws = []"
    by (auto simp: dict_wf_def dest: eq_key_imp_eq_value)
  moreover have "m \<in> fst ` set FW" using a by force
  ultimately show "m \<in> match_fw_to_car T FW fw"
    by (auto simp: match_iff)
qed


text \<open>Concrete runs: the example of the specification, with a second entry, and two exclusions.\<close>

theorem match_fw_to_car_membership_witness:
  "observed [new_message\<lparr>fwVersion := ''v1'', address := 0x7e0\<rparr>] (0x7e0, None) = Some ''v1''
   \<and> ''v1'' \<in> set [''v1'', ''v2'']
   \<and> match_fw_to_car toyota_names
        [(''A'', [((engine, 0x7e0, None), [''v1'', ''v2'']), ((eps, 0x7a1, None), [''p''])])]
        [new_message\<lparr>fwVersion := ''v1'', address := 0x7e0\<rparr>]
      = match_fw_to_car toyota_names [(''A'', [((eps, 0x7a1, None), [''p''])])]
        [new_message\<lparr>fwVersion := ''v1'', address := 0x7e0\<rparr>]
   \<and> observed [new_message\<lparr>fwVersion := ''v3'', address := 0x7e0\<rparr>] (0x7e0, None) = Some ''v3''
   \<and> ''v3'' \<notin> set [''v1'', ''v2'']
   \<and> ''A'' \<notin> match_fw_to_car toyota_names [(''A'', [((engine, 0x7e0, None), [''v1'', ''v2''])])]
        [new_message\<lparr>fwVersion := ''v3'', address := 0x7e0\<rparr>]
   \<and> observed [] (0x7e0, None) = None
   \<and> \<not> allow_listed toyota_names ''A'' engine \<and> engine \<in> set ESSENTIAL_ECUS
   \<and> ''A'' \<notin> match_fw_to_car toyota_names [(''A'', [((engine, 0x7e0, None), [''v1'', ''v2''])])] []"
  using match_fw_to_car_membership [of "[new_message\<lparr>fwVersion := ''v1'', address := 0x7e0\<rparr>]"
      "(engine, 0x7e0, None)" "''v1''" "[''v1'', ''v2'']" toyota_names "[]" "''A''" "[]"
      "[((eps, 0x7a1, None), [''p''])]" "[]"]
    match_fw_to_car_membership [of "[new_message\<lparr>fwVersion := ''v3'', address := 0x7e0\<rparr>]"
      "(engine, 0x7e0, None)" "''v3''" "[''v1'', ''v2'']" toyota_names "[]" "''A''" "[]" "[]" "[]"
      "[((engine, 0x7e0, None), [''v1'', ''v2''])]"
      "[(''A'', [((engine, 0x7e0, None), [''v1'', ''v2''])])]"]
    match_fw_to_car_membership [of "[]"
      "(engine, 0x7e0, None)" "''v3''" "[''v1'', ''v2'']" toyota_names "[]" "''A''" "[]" "[]" "[]"
      "[((engine, 0x7e0, None), [''v1'', ''v2''])]"
      "[(''A'', [((engine, 0x7e0, None), [''v1'', ''v2''])])]"]
  by (simp add: observed_def dict_get_def new_message_def allow_listed_def toyota_names_def
      ESSENTIAL_ECUS_def)

text \<open>Concrete runs: a non-essential type, an essential type, and both allow-lists.\<close>

theorem match_fw_to_car_leniency_witness:
  "observed [] (0x7c0, None) = None
   \<and> unknown \<notin> set ESSENTIAL_ECUS
   \<and> match_fw_to_car toyota_names [(''A'', [((unknown, 0x7c0, None), [''x''])])] [] = {''A''}
   \<and> esp \<in> set ESSENTIAL_ECUS \<and> \<not> allow_listed toyota_names ''A'' esp
   \<and> ''A'' \<notin> match_fw_to_car toyota_names [(''A'', [((esp, 0x7b0, None), [''x''])])] []
   \<and> allow_listed toyota_names ''TOYOTA RAV4 2017'' esp
   \<and> match_fw_to_car toyota_names [(''TOYOTA RAV4 2017'', [((esp, 0x7b0, None), [''x''])])] []
        = {''TOYOTA RAV4 2017''}
   \<and> allow_listed toyota_names ''TOYOTA C-HR 2018'' engine
   \<and> match_fw_to_car toyota_names [(''TOYOTA C-HR 2018'', [((engine, 0x700, None), [''x''])])] []
        = {''TOYOTA C-HR 2018''}"
  using match_fw_to_car_leniency [of "[]" "(unknown, 0x7c0, None)" toyota_names "[]" "''A''" "[]"
      "[''x'']" "[]" "[]" "[]" "[]" unknown]
    match_fw_to_car_leniency [of "[]" "(esp, 0x7b0, None)" toyota_names "[]" "''A''" "[]"
      "[''x'']" "[]" "[]" "[((esp, 0x7b0, None), [''x''])]"
      "[(''A'', [((esp, 0x7b0, None), [''x''])])]" esp]
    match_fw_to_car_leniency [of "[]" "(esp, 0x7b0, None)" toyota_names "[]" "''TOYOTA RAV4 2017''" "[]"
      "[''x'']" "[]" "[]" "[]" "[]" esp]
    match_fw_to_car_leniency [of "[]" "(engine, 0x700, None)" toyota_names "[]" "''TOYOTA C-HR 2018''" "[]"
      "[''x'']" "[]" "[]" "[]" "[]" engine]
  by (simp add: observed_def dict_get_def allow_listed_def toyota_names_def
      ESSENTIAL_ECUS_def match_fw_to_car_def dict_keys_def Let_def)

text \<open>A concrete run: a table with an empty fingerprint, and no observation.\<close>

theorem match_fw_to_car_subset_witness:
  "dict_wf [(''A'', []), (''B'', [((engine, 0x700 :: address, None :: sub_address option), [''x''])])]
   \<and> (''A'', []) \<in> set [(''A'', []), (''B'', [((engine, 0x700 :: address, None :: sub_address option), [''x''])])]
   \<and> ''A'' \<in> match_fw_to_car toyota_names
        [(''A'', []), (''B'', [((engine, 0x700, None), [''x''])])] []
   \<and> match_fw_to_car toyota_names [(''A'', []), (''B'', [((engine, 0x700, None), [''x''])])] []
        \<subseteq> set (dict_keys [(''A'', []), (''B'', [((engine, 0x700 :: address, None :: sub_address option), [''x''])])])"
  using match_fw_to_car_subset [of toyota_names
      "[(''A'', []), (''B'', [((engine, 0x700, None), [''x''])])]" "[]" "''A''"]
  by (simp add: dict_wf_def)

section \<open>Properties of the planner\<close>

subsection \<open>The three loops as one fold over the entries\<close>

lemma keys_loop_entries:
  "keys_loop brand st c = foldl entry_step st (map (\<lambda>k. (brand, k)) (dict_keys c))"
  by (simp add: keys_loop_def foldl_map entry_step_def)

lemma foldl_concat_map:
  "foldl f st (concat (map g xs)) = foldl (\<lambda>st x. foldl f st (g x)) st xs"
  by (induction xs arbitrary: st) simp_all

lemma cars_loop_entries:
  "cars_loop brand st bv =
     foldl entry_step st (concat (map (\<lambda>c. map (\<lambda>k. (brand, k)) (dict_keys c)) (dict_values bv)))"
proof -
  have "keys_loop brand = (\<lambda>st c. foldl entry_step st (map (\<lambda>k. (brand, k)) (dict_keys c)))"
    by (intro ext) (rule keys_loop_entries)
  then show ?thesis
    by (simp add: cars_loop_def foldl_concat_map)
qed

lemma brands_loop_entries: "brands_loop st versions = foldl entry_step st (table_entries versions)"
proof -
  have "(\<lambda>st (brand, bv). cars_loop brand st bv)
      = (\<lambda>st x. foldl entry_step st ((\<lambda>(brand, bv).
           concat (map (\<lambda>c. map (\<lambda>k. (brand, k)) (dict_keys c)) (dict_values bv))) x))"
    by (intro ext) (simp add: cars_loop_entries split: prod.splits)
  then show ?thesis
    by (simp add: brands_loop_def table_entries_def foldl_concat_map)
qed

subsection \<open>Dictionary updates\<close>

lemma dict_keys_dict_set: "set (dict_keys (dict_set d k v)) = insert k (set (dict_keys d))"
proof (induction d)
  case Nil
  show ?case by (simp add: dict_keys_def)
next
  case (Cons p d)
  obtain k' v' where p: "p = (k', v')" by (cases p)
  have "set (map fst (dict_set d k v)) = insert k (set (map fst d))"
    using Cons.IH by (simp add: dict_keys_def)
  then show ?case
    unfolding p dict_keys_def by (cases "k' = k") auto
qed

lemma dict_get_dict_set: "dict_get (dict_set d k v) k' = (if k' = k then Some v else dict_get d k')"
  by (induction d) (auto simp: dict_get_def)

lemma distinct_dict_set: "dict_wf d \<Longrightarrow> dict_wf (dict_set d k v)"
proof (induction d)
  case Nil
  show ?case by (simp add: dict_wf_def)
next
  case (Cons p d)
  have keys: "set (map fst (dict_set d k v)) = insert k (set (map fst d))"
    using dict_keys_dict_set [of d k v] by (simp add: dict_keys_def)
  show ?case
    using Cons keys by (cases p) (auto simp: dict_wf_def)
qed

subsection \<open>One entry, then all entries\<close>

lemma entry_step_ecu_types:
  "pairs_only (ecu_types st) \<Longrightarrow>
   ecu_types (entry_step st (b, e, a, s)) = dict_set (ecu_types st) (Tuple2 a s) e"
  by (auto simp: entry_step_def keys_body_def Let_def pairs_only_def)

lemma entry_step_pairs_only:
  "pairs_only (ecu_types st) \<Longrightarrow> pairs_only (ecu_types (entry_step st x))"
proof -
  assume p: "pairs_only (ecu_types st)"
  obtain b e a s where x: "x = (b, e, a, s)" by (cases x) auto
  show ?thesis
    using p unfolding x entry_step_ecu_types [OF p]
    by (auto simp: pairs_only_def dict_keys_dict_set)
qed

lemma entry_step_parallel:
  "parallel_addrs (entry_step st (b, e, a, s)) =
     (if s = None \<and> (b, a, s) \<notin> set (parallel_addrs st)
      then parallel_addrs st @ [(b, a, s)] else parallel_addrs st)"
  by (simp add: entry_step_def keys_body_def Let_def)

lemma entry_step_addrs:
  "addrs (entry_step st (b, e, a, s)) =
     (if s \<noteq> None \<and> [(b, a, s)] \<notin> set (addrs st)
      then addrs st @ [[(b, a, s)]] else addrs st)"
  by (simp add: entry_step_def keys_body_def Let_def)


lemma fold_parallel_set:
  "set (parallel_addrs (foldl entry_step st es)) =
     set (parallel_addrs st) \<union> {t \<in> set (map triple_of es). snd (snd t) = None}"
proof (induction es arbitrary: st)
  case Nil
  show ?case by simp
next
  case (Cons x es)
  obtain b e a s where x: "x = (b, e, a, s)" by (cases x) auto
  have "set (parallel_addrs (entry_step st x)) =
      set (parallel_addrs st) \<union> {t. t = triple_of x \<and> snd (snd t) = None}"
    unfolding x by (auto simp: entry_step_parallel)
  then show ?case
    unfolding foldl_Cons Cons.IH list.map list.set by blast
qed

lemma fold_parallel_distinct:
  "distinct (parallel_addrs st) \<Longrightarrow> distinct (parallel_addrs (foldl entry_step st es))"
proof (induction es arbitrary: st)
  case Nil
  then show ?case by simp
next
  case (Cons x es)
  obtain b e a s where x: "x = (b, e, a, s)" by (cases x) auto
  have "distinct (parallel_addrs (entry_step st x))"
    using Cons.prems unfolding x by (auto simp: entry_step_parallel)
  then show ?case
    using Cons.IH by simp
qed

lemma fold_addrs_set:
  "set (addrs (foldl entry_step st es)) =
     set (addrs st) \<union> {[t] | t. t \<in> set (map triple_of es) \<and> snd (snd t) \<noteq> None}"
proof (induction es arbitrary: st)
  case Nil
  show ?case by simp
next
  case (Cons x es)
  obtain b e a s where x: "x = (b, e, a, s)" by (cases x) auto
  have "set (addrs (entry_step st x)) =
      set (addrs st) \<union> {[t] | t. t = triple_of x \<and> snd (snd t) \<noteq> None}"
    unfolding x by (auto simp: entry_step_addrs)
  then show ?case
    unfolding foldl_Cons Cons.IH list.map list.set by blast
qed

lemma fold_addrs_distinct:
  "distinct (addrs st) \<Longrightarrow> distinct (addrs (foldl entry_step st es))"
proof (induction es arbitrary: st)
  case Nil
  then show ?case by simp
next
  case (Cons x es)
  obtain b e a s where x: "x = (b, e, a, s)" by (cases x) auto
  have "distinct (addrs (entry_step st x))"
    using Cons.prems unfolding x by (auto simp: entry_step_addrs)
  then show ?case
    using Cons.IH by simp
qed

lemma fold_pairs_only:
  "pairs_only (ecu_types st) \<Longrightarrow> pairs_only (ecu_types (foldl entry_step st es))"
  by (induction es arbitrary: st) (simp_all add: entry_step_pairs_only)

lemma fold_ecu_types_append:
  assumes "pairs_only (ecu_types st)"
  shows "dict_get (ecu_types (foldl entry_step st (es @ [(b, e, a, s)]))) (Tuple2 a' s') =
     (if a' = a \<and> s' = s then Some e
      else dict_get (ecu_types (foldl entry_step st es)) (Tuple2 a' s'))"
  using fold_pairs_only [OF assms, of es]
  by (simp add: entry_step_ecu_types dict_get_dict_set)

lemma fold_ecu_types_keys:
  assumes "pairs_only (ecu_types st)"
  shows "set (dict_keys (ecu_types (foldl entry_step st es))) =
     set (dict_keys (ecu_types st)) \<union> set (map (\<lambda>(b, e, a, s). Tuple2 a s) es)"
  using assms
proof (induction es arbitrary: st)
  case Nil
  show ?case by simp
next
  case (Cons x es)
  obtain b e a s where x: "x = (b, e, a, s)" by (cases x) auto
  have p: "pairs_only (ecu_types (entry_step st x))"
    using Cons.prems by (rule entry_step_pairs_only)
  show ?case
    using Cons.IH [OF p] entry_step_ecu_types [OF Cons.prems, of b e a s]
    unfolding x by (auto simp: dict_keys_dict_set)
qed


subsection \<open>The plan\<close>

lemma planner_entries:
  "planner versions extra =
     foldl entry_step \<lparr>ecu_types = [], addrs = [], parallel_addrs = []\<rparr>
       (table_entries (versions_with_extra versions extra))"
  by (simp add: planner_def brands_loop_entries)

lemma planner_parallel:
  "set (parallel_addrs (planner versions extra)) = {t \<in> set (probed versions extra). snd (snd t) = None}"
  "distinct (parallel_addrs (planner versions extra))"
  by (simp_all add: planner_entries fold_parallel_set fold_parallel_distinct probed_def
      table_triples_def)

lemma planner_addrs:
  "set (addrs (planner versions extra)) =
     {[t] | t. t \<in> set (probed versions extra) \<and> snd (snd t) \<noteq> None}"
  "distinct (addrs (planner versions extra))"
  by (simp_all add: planner_entries fold_addrs_set fold_addrs_distinct probed_def
      table_triples_def)

lemma planner_pairs_only: "pairs_only (ecu_types (planner versions extra))"
  unfolding planner_entries by (rule fold_pairs_only) (simp add: pairs_only_def dict_keys_def)

lemma one_group:
  assumes P: "set P = {t \<in> A. snd (snd t) = None}"
    and S: "set S = {[t] | t. t \<in> A \<and> snd (snd t) \<noteq> None}"
    and dS: "distinct S"
    and t: "t \<in> A"
  shows "\<exists>!i. i < length (P # S) \<and> t \<in> set ((P # S) ! i)"
proof (cases "snd (snd t) = None")
  case True
  have in0: "t \<in> set ((P # S) ! 0)" using True t P by simp
  have "i = 0" if "i < length (P # S)" "t \<in> set ((P # S) ! i)" for i
  proof (rule ccontr)
    assume "i \<noteq> 0"
    then obtain j where j: "i = Suc j" by (cases i) auto
    with that have "j < length S" "t \<in> set (S ! j)" by auto
    moreover from \<open>j < length S\<close> have "S ! j \<in> set S" by simp
    ultimately have "S ! j \<in> {[t'] | t'. t' \<in> A \<and> snd (snd t') \<noteq> None}" "t \<in> set (S ! j)"
      using S by simp_all
    then show False using True by force
  qed
  with in0 show ?thesis by (intro ex1I [of _ 0]) auto
next
  case False
  with t have "[t] \<in> {[t'] | t'. t' \<in> A \<and> snd (snd t') \<noteq> None}" by blast
  then have "[t] \<in> set S" using S by simp
  then obtain j where j: "j < length S" "S ! j = [t]" by (auto simp: in_set_conv_nth)
  have "i = Suc j" if "i < length (P # S)" "t \<in> set ((P # S) ! i)" for i
  proof (cases i)
    case 0
    with that have "t \<in> set P" by simp
    with P False show ?thesis by simp
  next
    case (Suc j')
    with that have j': "j' < length S" "t \<in> set (S ! j')" by auto
    then have "S ! j' \<in> set S" by simp
    with S have "S ! j' \<in> {[t'] | t'. t' \<in> A \<and> snd (snd t') \<noteq> None}" by simp
    with j'(2) have "S ! j' = [t]" by force
    with j j'(1) dS have "j' = j" using nth_eq_iff_index_eq [of S j' j] by simp
    with Suc show ?thesis by simp
  qed
  moreover have "Suc j < length (P # S) \<and> t \<in> set ((P # S) ! Suc j)" using j by simp
  ultimately show ?thesis by (intro ex1I [of _ "Suc j"]) auto
qed

subsection \<open>Claims about the planner\<close>

text \<open>
  Claim C1, as amended. The plan is never empty. Its first group holds exactly the triples
  \<open>(brand, address, subAddress)\<close> of the table (extra probe set merged in) whose
  sub-address is \<open>None\<close>, each once; its other groups are exactly the singletons of the
  triples with a sub-address, each singleton once. So every triple of the table is in
  exactly one plan group.
\<close>

theorem plan_partitions_brand_addrs:
  "query_plan versions extra \<noteq> []
   \<and> set (hd (query_plan versions extra)) = {t \<in> set (probed versions extra). snd (snd t) = None}
   \<and> distinct (hd (query_plan versions extra))
   \<and> set (tl (query_plan versions extra))
       = {[t] | t. t \<in> set (probed versions extra) \<and> snd (snd t) \<noteq> None}
   \<and> distinct (tl (query_plan versions extra))
   \<and> (\<forall>t \<in> set (probed versions extra).
        \<exists>!i. i < length (query_plan versions extra) \<and> t \<in> set (query_plan versions extra ! i))"
proof -
  let ?P = "parallel_addrs (planner versions extra)"
  let ?S = "addrs (planner versions extra)"
  have plan: "query_plan versions extra = ?P # ?S"
    by (simp add: query_plan_def plan_of_def)
  have "\<forall>t \<in> set (probed versions extra). \<exists>!i. i < length (?P # ?S) \<and> t \<in> set ((?P # ?S) ! i)"
    using one_group [OF planner_parallel(1) planner_addrs(1) planner_addrs(2)] by blast
  then show ?thesis
    unfolding plan using planner_parallel planner_addrs by simp
qed

lemma scan_plan:
  "query_plan scan_versions (Some scan_extra) =
     [[(''toyota'', 0x700, None), (''any'', 0x700, None)],
      [(''toyota'', 0x750, Some 0x6d)], [(''any'', 0x750, Some 0x6d)]]"
  by (simp add: query_plan_def plan_of_def planner_def versions_with_extra_def scan_versions_def
      scan_extra_def brands_loop_def cars_loop_def keys_loop_def keys_body_def dict_keys_def
      dict_values_def Let_def)

lemma scan_probed:
  "probed scan_versions (Some scan_extra) =
     [(''toyota'', 0x700, None), (''toyota'', 0x750, Some 0x6d),
      (''any'', 0x700, None), (''any'', 0x750, Some 0x6d)]"
  by (simp add: probed_def table_triples_def table_entries_def versions_with_extra_def
      scan_versions_def scan_extra_def dict_keys_def dict_values_def)

text \<open>The plan of the scan: three groups, and the triple of brand any in the third only.\<close>

theorem plan_partitions_brand_addrs_witness:
  "(''any'', 0x750, Some 0x6d) \<in> set (probed scan_versions (Some scan_extra))
   \<and> (''any'', 0x750, Some 0x6d) \<in> set (query_plan scan_versions (Some scan_extra) ! 2)
   \<and> (''any'', 0x750, Some 0x6d) \<notin> set (query_plan scan_versions (Some scan_extra) ! 0)
   \<and> (''any'', 0x750, Some 0x6d) \<notin> set (query_plan scan_versions (Some scan_extra) ! 1)
   \<and> length (query_plan scan_versions (Some scan_extra)) = 3
   \<and> distinct (hd (query_plan scan_versions (Some scan_extra)))
   \<and> distinct (tl (query_plan scan_versions (Some scan_extra)))"
  using plan_partitions_brand_addrs [of scan_versions "Some scan_extra"]
  by (simp add: scan_plan scan_probed)

text \<open>
  For pairs \<open>(address, subAddress)\<close> the partition fails: in the scan, the pair
  \<open>(0x750, 0x6d)\<close> is probed under the brands toyota and any, and occupies two singleton
  groups; the pair \<open>(0x700, None)\<close> is in the parallel group twice.
\<close>

theorem plan_pairs_counterexample:
  "query_plan scan_versions (Some scan_extra) =
     [[(''toyota'', 0x700, None), (''any'', 0x700, None)],
      [(''toyota'', 0x750, Some 0x6d)], [(''any'', 0x750, Some 0x6d)]]
   \<and> length (filter (group_has (0x750, Some 0x6d)) (query_plan scan_versions (Some scan_extra))) = 2
   \<and> count_list (map snd (hd (query_plan scan_versions (Some scan_extra)))) (0x700, None) = 2"
  by (simp add: scan_plan group_has_def)

text \<open>
  Claim C6. The guard of line 170 looks up the triple \<^verbatim>\<open>a\<close> among keys that are pairs,
  so it never finds it, and every occurrence of a key overwrites \<^verbatim>\<open>ecu_types\<close>. In the
  scan, the key \<open>(0x750, 0x6d)\<close> occurs first as fwdCamera (brand toyota) and then as
  unknown (brand any); the type recorded is unknown, the last one.
\<close>

theorem ecu_types_last_writer:
  "dict_get (ecu_types (planner scan_versions (Some scan_extra))) (Tuple2 0x750 (Some 0x6d))
     = Some unknown
   \<and> dict_get (ecu_types (planner scan_versions None)) (Tuple2 0x750 (Some 0x6d))
     = Some fwdCamera
   \<and> Tuple3 b a s \<notin> set (dict_keys (ecu_types (planner versions extra)))"
proof -
  have "Tuple3 b a s \<notin> set (dict_keys (ecu_types (planner versions extra)))"
    using planner_pairs_only [of versions extra] by (auto simp: pairs_only_def)
  then show ?thesis
    by (simp add: planner_def versions_with_extra_def scan_versions_def
      scan_extra_def brands_loop_def cars_loop_def keys_loop_def keys_body_def dict_keys_def
      dict_values_def dict_get_def Let_def)
qed

section \<open>Properties of the orchestrator\<close>

subsection \<open>The three loops as one fold over the prescribed invocations\<close>

lemma request_body_exec:
  "request_body tr timeout i ch st r =
     foldl (exec_call tr) st
       (if chunk_addrs (fst r) ch \<noteq> [] then [(i, the_call timeout i ch r)] else [])"
  by (cases r) (simp add: request_body_def exec_call_def the_call_def Let_def)

lemma requests_loop_exec:
  "requests_loop tr timeout R i st ch = foldl (exec_call tr) st (chunk_calls timeout R i ch)"
proof -
  have "request_body tr timeout i ch = (\<lambda>st r. foldl (exec_call tr) st
       (if chunk_addrs (fst r) ch \<noteq> [] then [(i, the_call timeout i ch r)] else []))"
    by (intro ext) (rule request_body_exec)
  then show ?thesis
    by (simp add: requests_loop_def chunk_calls_def foldl_concat_map)
qed

lemma chunks_loop_exec:
  "chunks_loop tr timeout R st g = foldl (exec_call tr) st (group_calls timeout R g)"
proof -
  obtain i addr where g: "g = (i, addr)" by (cases g)
  have "requests_loop tr timeout R i = (\<lambda>st ch. foldl (exec_call tr) st (chunk_calls timeout R i ch))"
    by (intro ext) (rule requests_loop_exec)
  then show ?thesis
    by (simp add: g chunks_loop_def group_calls_def foldl_concat_map)
qed

lemma query_loop_exec:
  "query_loop tr timeout R st plan = foldl (exec_call tr) st (planned_calls timeout R plan)"
proof -
  have "chunks_loop tr timeout R = (\<lambda>st g. foldl (exec_call tr) st (group_calls timeout R g))"
    by (intro ext) (rule chunks_loop_exec)
  then show ?thesis
    by (simp add: query_loop_def planned_calls_def foldl_concat_map)
qed

lemma exec_call_fields:
  "q_world (exec_call tr st ic) = snd (tr (q_world st) (snd ic))"
  "q_calls (exec_call tr st ic) = q_calls st @ [ic]"
  "q_fw_versions (exec_call tr st ic) =
     (case fst (tr (q_world st) (snd ic)) of
        Inr d \<Rightarrow> dict_update (q_fw_versions st) d | Inl e \<Rightarrow> q_fw_versions st)"
  "q_warnings (exec_call tr st ic) =
     (case fst (tr (q_world st) (snd ic)) of
        Inr d \<Rightarrow> q_warnings st | Inl e \<Rightarrow> q_warnings st + 1)"
  by (simp_all add: exec_call_def Let_def split: sum.splits)

lemma exec_calls_log: "q_calls (foldl (exec_call tr) st cs) = q_calls st @ cs"
  by (induction cs arbitrary: st) (simp_all add: exec_call_fields)

lemma exec_calls_fw_versions:
  "q_fw_versions (foldl (exec_call tr) st cs) =
     foldl dict_update (q_fw_versions st) (successes (outcomes tr (q_world st) (map snd cs)))"
proof (induction cs arbitrary: st)
  case Nil
  show ?case by simp
next
  case (Cons ic cs)
  show ?case
    by (cases "fst (tr (q_world st) (snd ic))") (simp_all add: Cons.IH exec_call_fields)
qed

lemma exec_calls_warnings:
  "q_warnings (foldl (exec_call tr) st cs) =
     q_warnings st + length (failures (outcomes tr (q_world st) (map snd cs)))"
proof (induction cs arbitrary: st)
  case Nil
  show ?case by simp
next
  case (Cons ic cs)
  show ?case
    by (cases "fst (tr (q_world st) (snd ic))") (simp_all add: Cons.IH exec_call_fields)
qed


subsection \<open>Merging dictionaries\<close>

lemma dict_get_update:
  "dict_get (dict_update d e) k =
     (case map_of (rev e) k of Some v \<Rightarrow> Some v | None \<Rightarrow> dict_get d k)"
proof (induction e arbitrary: d)
  case Nil
  show ?case by simp
next
  case (Cons p e)
  obtain k' v' where p: "p = (k', v')" by (cases p)
  show ?case
    unfolding p
    by (simp add: Cons.IH dict_get_dict_set map_add_def split: option.splits)
qed

lemma dict_keys_update:
  "set (dict_keys (dict_update d e)) = set (dict_keys d) \<union> set (dict_keys e)"
proof (induction e arbitrary: d)
  case Nil
  show ?case by (simp add: dict_keys_def)
next
  case (Cons p e)
  obtain k' v' where p: "p = (k', v')" by (cases p)
  have "set (dict_keys ((k', v') # e)) = insert k' (set (dict_keys e))"
    by (simp add: dict_keys_def)
  then show ?case
    unfolding p by (simp add: Cons.IH dict_keys_dict_set)
qed

lemma dict_wf_update: "dict_wf d \<Longrightarrow> dict_wf (dict_update d e)"
proof (induction e arbitrary: d)
  case Nil
  then show ?case by simp
next
  case (Cons p e)
  obtain k' v' where p: "p = (k', v')" by (cases p)
  show ?case
    unfolding p using Cons.prems by (simp add: Cons.IH distinct_dict_set)
qed

lemma dict_set_new: "k \<notin> set (dict_keys d) \<Longrightarrow> dict_set d k v = d @ [(k, v)]"
  by (induction d) (auto simp: dict_keys_def)

lemma dict_update_wf_append: "dict_wf (d @ e) \<Longrightarrow> dict_update d e = d @ e"
proof (induction e arbitrary: d)
  case Nil
  show ?case by simp
next
  case (Cons p e)
  obtain k' v' where p: "p = (k', v')" by (cases p)
  have new: "k' \<notin> set (dict_keys d)"
    using Cons.prems unfolding p by (auto simp: dict_wf_def dict_keys_def)
  have "dict_wf ((d @ [(k', v')]) @ e)"
    using Cons.prems unfolding p by (simp add: dict_wf_def)
  then have "dict_update (d @ [(k', v')]) e = (d @ [(k', v')]) @ e"
    by (rule Cons.IH)
  then show ?case
    unfolding p by (simp add: dict_set_new [OF new])
qed

lemma dict_update_wf: "dict_wf e \<Longrightarrow> dict_update [] e = e"
  using dict_update_wf_append [of "[]" e] by simp

lemma map_of_rev_None: "map_of (rev e) k = None \<longleftrightarrow> k \<notin> set (dict_keys e)"
  by (simp add: map_of_eq_None_iff dict_keys_def)

lemma merge_last_wins:
  "dict_get (foldl dict_update d rs) k =
     (case filter (\<lambda>r. k \<in> set (dict_keys r)) rs of
        [] \<Rightarrow> dict_get d k
      | r # fs \<Rightarrow> dict_get (dict_update [] (last (r # fs))) k)"
proof (induction rs rule: rev_induct)
  case Nil
  show ?case by simp
next
  case (snoc r rs)
  show ?case
  proof (cases "k \<in> set (dict_keys r)")
    case True
    then obtain v where v: "map_of (rev r) k = Some v"
      using map_of_rev_None [of r k] by auto
    have "filter (\<lambda>r. k \<in> set (dict_keys r)) (rs @ [r]) \<noteq> []"
      using True by simp
    then obtain r0 fs where f: "filter (\<lambda>r. k \<in> set (dict_keys r)) (rs @ [r]) = r0 # fs"
      by (cases "filter (\<lambda>r. k \<in> set (dict_keys r)) (rs @ [r])") auto
    have "last (r0 # fs) = r"
      using True f [symmetric] by simp
    then show ?thesis
      unfolding f by (simp add: dict_get_update v)
  next
    case False
    then have "map_of (rev r) k = None"
      using map_of_rev_None [of r k] by simp
    then show ?thesis
      using False snoc.IH by (simp add: dict_get_update)
  qed
qed

lemma merge_wf: "dict_wf d \<Longrightarrow> dict_wf (foldl dict_update d rs)"
  by (induction rs arbitrary: d) (simp_all add: dict_wf_update)

lemma merge_keys:
  "set (dict_keys (foldl dict_update d rs)) = set (dict_keys d) \<union> (\<Union>r \<in> set rs. set (dict_keys r))"
  by (induction rs arbitrary: d) (auto simp: dict_keys_update)


subsection \<open>Chunks and the prescribed invocations\<close>

lemma chunks_Nil: "chunks [] n = []"
  by (simp add: chunks.simps)

lemma chunks_single: "l \<noteq> [] \<Longrightarrow> length l \<le> n \<Longrightarrow> chunks l n = [l]"
proof -
  assume l: "l \<noteq> []" "length l \<le> n"
  then have "0 < length l" by simp
  with l(2) have "n \<noteq> 0" by linarith
  with l show ?thesis by (subst chunks.simps) (simp add: chunks_Nil)
qed

lemma concat_chunks: "0 < n \<Longrightarrow> concat (chunks l n) = l"
proof (induction l n rule: chunks.induct)
  case (1 l n)
  show ?case
  proof (cases "l = []")
    case True
    then show ?thesis by (simp add: chunks_Nil)
  next
    case False
    with 1 have "concat (chunks (drop n l) n) = drop n l" by simp
    with False 1(2) show ?thesis by (subst chunks.simps) simp
  qed
qed

lemma chunks_bounds: "ch \<in> set (chunks l n) \<Longrightarrow> ch \<noteq> [] \<and> length ch \<le> n"
proof (induction l n rule: chunks.induct)
  case (1 l n)
  show ?case
  proof (cases "l = [] \<or> n = 0")
    case True
    with 1(2) show ?thesis by (simp add: chunks.simps)
  next
    case False
    with 1(2) have "ch = take n l \<or> ch \<in> set (chunks (drop n l) n)"
      by (subst (asm) chunks.simps) auto
    with False 1(1) show ?thesis by auto
  qed
qed

lemma set_chunk_addrs:
  "set (chunk_addrs brand ch) = {(a, s) | b a s. (b, a, s) \<in> set ch \<and> (b = brand \<or> b = ''any'')}"
  by (force simp: chunk_addrs_def)

lemma in_chunk_calls:
  "ic \<in> set (chunk_calls timeout R i ch) \<longleftrightarrow>
     (\<exists>r \<in> set R. chunk_addrs (fst r) ch \<noteq> [] \<and> ic = (i, the_call timeout i ch r))"
  by (auto simp: chunk_calls_def)

lemma in_group_calls:
  "ic \<in> set (group_calls timeout R g) \<longleftrightarrow>
     (\<exists>ch \<in> set (chunks (snd g) 128). \<exists>r \<in> set R.
        chunk_addrs (fst r) ch \<noteq> [] \<and> ic = (fst g, the_call timeout (fst g) ch r))"
  by (auto simp: group_calls_def in_chunk_calls)

lemma in_planned_calls:
  "ic \<in> set (planned_calls timeout R plan) \<longleftrightarrow>
     (\<exists>i < length plan. \<exists>ch \<in> set (chunks (plan ! i) 128). \<exists>r \<in> set R.
        chunk_addrs (fst r) ch \<noteq> [] \<and> ic = (i, the_call timeout i ch r))"
proof -
  have "ic \<in> set (planned_calls timeout R plan) \<longleftrightarrow>
      (\<exists>g \<in> set (enumerate 0 plan). ic \<in> set (group_calls timeout R g))"
    by (simp add: planned_calls_def)
  also have "\<dots> \<longleftrightarrow> (\<exists>i < length plan. ic \<in> set (group_calls timeout R (i, plan ! i)))"
    by (auto simp: in_set_enumerate_eq)
  finally show ?thesis
    by (simp add: in_group_calls)
qed

lemma orchestrate_exec:
  "orchestrate tr w R versions extra timeout =
     foldl (exec_call tr) (initial_query_state w)
       (planned_calls timeout R (query_plan versions extra))"
  by (simp add: orchestrate_def query_loop_exec)

lemma orchestrate_calls:
  "q_calls (orchestrate tr w R versions extra timeout) =
     planned_calls timeout R (query_plan versions extra)"
  by (simp add: orchestrate_exec exec_calls_log initial_query_state_def)


subsection \<open>Claims about the orchestrator\<close>

lemma get_fw_versions_snd:
  "snd (get_fw_versions tr w R versions extra timeout) = orchestrate tr w R versions extra timeout"
  by (simp add: get_fw_versions_def Let_def)

text \<open>
  Claim C5. Every invocation made while processing group 0 gets the timeout
  \<open>2 * timeout\<close>, every invocation of a later group gets \<open>timeout\<close>; so the timeout of
  an invocation of group 0 is twice that of any invocation of a later group.
\<close>

theorem timeout_doubling:
  "(\<forall>ic \<in> set (q_calls (snd (get_fw_versions tr w R versions extra timeout))).
      c_timeout (snd ic) = (if fst ic = 0 then 2 * timeout else timeout))
   \<and> (\<forall>ic \<in> set (q_calls (snd (get_fw_versions tr w R versions extra timeout))).
       \<forall>jc \<in> set (q_calls (snd (get_fw_versions tr w R versions extra timeout))).
         fst ic = 0 \<and> fst jc \<noteq> 0 \<longrightarrow> c_timeout (snd ic) = 2 * c_timeout (snd jc))"
proof -
  have t: "c_timeout (snd ic) = (if fst ic = 0 then 2 * timeout else timeout)"
    if "ic \<in> set (planned_calls timeout R (query_plan versions extra))" for ic
    using that by (auto simp: in_planned_calls the_call_def split: prod.splits)
  show ?thesis
    unfolding get_fw_versions_snd orchestrate_calls by (auto simp: t)
qed

text \<open>
  Claim C7. The invocations that \<^verbatim>\<open>get_fw_versions\<close> makes are exactly the prescribed
  ones, in order. Each has a non-empty address list, which is a chunk of its group
  filtered down to the addresses whose brand is the brand of the catalog entry or
  \<open>any\<close>, and carries the request and response sequences of that entry; a chunk and an
  entry whose filtered list is empty give no invocation.
\<close>

theorem transport_called_on_filtered_chunks:
  "q_calls (snd (get_fw_versions tr w R versions extra timeout))
     = planned_calls timeout R (query_plan versions extra)
   \<and> (\<forall>ic \<in> set (q_calls (snd (get_fw_versions tr w R versions extra timeout))).
        c_addrs (snd ic) \<noteq> []
        \<and> fst ic < length (query_plan versions extra)
        \<and> (\<exists>ch \<in> set (chunks (query_plan versions extra ! fst ic) 128). \<exists>r \<in> set R.
             c_addrs (snd ic) = chunk_addrs (fst r) ch
             \<and> c_request (snd ic) = fst (snd r) \<and> c_response (snd ic) = snd (snd r)))
   \<and> set (chunk_addrs brand ch)
       = {(a, s) | b a s. (b, a, s) \<in> set ch \<and> (b = brand \<or> b = ''any'')}"
proof -
  have c: "c_addrs (snd ic) \<noteq> []
        \<and> fst ic < length (query_plan versions extra)
        \<and> (\<exists>ch \<in> set (chunks (query_plan versions extra ! fst ic) 128). \<exists>r \<in> set R.
             c_addrs (snd ic) = chunk_addrs (fst r) ch
             \<and> c_request (snd ic) = fst (snd r) \<and> c_response (snd ic) = snd (snd r))"
    if "ic \<in> set (planned_calls timeout R (query_plan versions extra))" for ic
  proof -
    from that obtain i ch r where i: "i < length (query_plan versions extra)"
      and ch: "ch \<in> set (chunks (query_plan versions extra ! i) 128)"
      and r: "r \<in> set R" "chunk_addrs (fst r) ch \<noteq> []"
      and ic: "ic = (i, the_call timeout i ch r)"
      unfolding in_planned_calls by blast
    have "c_addrs (snd ic) = chunk_addrs (fst r) ch" "c_request (snd ic) = fst (snd r)"
      "c_response (snd ic) = snd (snd r)"
      unfolding ic by (simp_all add: the_call_def split: prod.splits)
    with i ch r ic show ?thesis by auto
  qed
  show ?thesis
    unfolding get_fw_versions_snd orchestrate_calls
    using c set_chunk_addrs [of brand ch] by blast
qed

text \<open>
  Claim C8. The final \<^verbatim>\<open>fw_versions\<close> has no key twice; it is the merge, in order, of
  the dictionaries that the transport returned; and its value for a key is the value in
  the last returned dictionary that has the key (none when no returned dictionary has
  it). Merging a dictionary into the empty one gives that dictionary.
\<close>

theorem observations_last_write_wins:
  "dict_wf (q_fw_versions (snd (get_fw_versions tr w R versions extra timeout)))
   \<and> q_fw_versions (snd (get_fw_versions tr w R versions extra timeout))
       = foldl dict_update [] (merged_results tr w R versions extra timeout)
   \<and> dict_get (q_fw_versions (snd (get_fw_versions tr w R versions extra timeout))) k
       = (case filter (\<lambda>r. k \<in> set (dict_keys r)) (merged_results tr w R versions extra timeout) of
            [] \<Rightarrow> None
          | r # fs \<Rightarrow> dict_get (dict_update [] (last (r # fs))) k)
   \<and> (dict_wf r \<longrightarrow> dict_update [] r = r)"
proof -
  have m: "q_fw_versions (snd (get_fw_versions tr w R versions extra timeout))
       = foldl dict_update [] (merged_results tr w R versions extra timeout)"
    by (simp add: get_fw_versions_snd orchestrate_exec exec_calls_fw_versions
        initial_query_state_def merged_results_def)
  have "dict_wf (foldl dict_update ([] :: (addr_key, bytes) dict)
      (merged_results tr w R versions extra timeout))"
    by (rule merge_wf) (simp add: dict_wf_def)
  moreover have "dict_get (foldl dict_update [] (merged_results tr w R versions extra timeout)) k
       = (case filter (\<lambda>r. k \<in> set (dict_keys r)) (merged_results tr w R versions extra timeout) of
            [] \<Rightarrow> None
          | r # fs \<Rightarrow> dict_get (dict_update [] (last (r # fs))) k)"
  proof -
    have e: "dict_get ([] :: (addr_key, bytes) dict) k = None"
      by (simp add: dict_get_def)
    show ?thesis
      using merge_last_wins [of "[]" "merged_results tr w R versions extra timeout" k]
      unfolding e .
  qed
  ultimately show ?thesis
    unfolding m using dict_update_wf [of r] by simp
qed

subsection \<open>A concrete run\<close>

lemma demo_plan:
  "query_plan scan_versions None = [[(''toyota'', 0x700, None)], [(''toyota'', 0x750, Some 0x6d)]]"
  by (simp add: query_plan_def plan_of_def planner_def versions_with_extra_def scan_versions_def
      brands_loop_def cars_loop_def keys_loop_def keys_body_def dict_keys_def
      dict_values_def Let_def)

lemma demo_calls:
  "planned_calls (0.1 :: real) REQUESTS (query_plan scan_versions None) =
     [(0, \<lparr>c_addrs = [(0x700, None)], c_request = [[CHR 0x3E], [CHR 0x1A, CHR 0x88, CHR 0x01]],
           c_response = [[CHR 0x7E], [CHR 0x5A, CHR 0x88, CHR 0x01]], c_timeout = 0.2\<rparr>),
      (0, \<lparr>c_addrs = [(0x700, None)], c_request = [[CHR 0x3E], [CHR 0x09, CHR 0x04]],
           c_response = [[CHR 0x7E], [CHR 0x49, CHR 0x04]], c_timeout = 0.2\<rparr>),
      (0, \<lparr>c_addrs = [(0x700, None)],
           c_request = [[CHR 0x3E, CHR 0x00], [CHR 0x10, CHR 0x01], [CHR 0x10, CHR 0x03],
             [CHR 0x22, CHR 0xF1, CHR 0x81]],
           c_response = [[CHR 0x7E, CHR 0x00],
             [CHR 0x50, CHR 0x01, CHR 0x00, CHR 0x32, CHR 0x01, CHR 0xF4],
             [CHR 0x50, CHR 0x03, CHR 0x00, CHR 0x32, CHR 0x01, CHR 0xF4],
             [CHR 0x62, CHR 0xF1, CHR 0x81]], c_timeout = 0.2\<rparr>),
      (1, \<lparr>c_addrs = [(0x750, Some 0x6d)], c_request = [[CHR 0x3E], [CHR 0x1A, CHR 0x88, CHR 0x01]],
           c_response = [[CHR 0x7E], [CHR 0x5A, CHR 0x88, CHR 0x01]], c_timeout = 0.1\<rparr>),
      (1, \<lparr>c_addrs = [(0x750, Some 0x6d)], c_request = [[CHR 0x3E], [CHR 0x09, CHR 0x04]],
           c_response = [[CHR 0x7E], [CHR 0x49, CHR 0x04]], c_timeout = 0.1\<rparr>),
      (1, \<lparr>c_addrs = [(0x750, Some 0x6d)],
           c_request = [[CHR 0x3E, CHR 0x00], [CHR 0x10, CHR 0x01], [CHR 0x10, CHR 0x03],
             [CHR 0x22, CHR 0xF1, CHR 0x81]],
           c_response = [[CHR 0x7E, CHR 0x00],
             [CHR 0x50, CHR 0x01, CHR 0x00, CHR 0x32, CHR 0x01, CHR 0xF4],
             [CHR 0x50, CHR 0x03, CHR 0x00, CHR 0x32, CHR 0x01, CHR 0xF4],
             [CHR 0x62, CHR 0xF1, CHR 0x81]], c_timeout = 0.1\<rparr>)]"
  by (simp add: demo_plan planned_calls_def enumerate_eq_zip group_calls_def chunks_single
      chunk_calls_def chunk_addrs_def the_call_def REQUESTS_def upt_rec)

lemma demo_merged:
  "merged_results demo_transport 0 REQUESTS scan_versions None (0.1 :: real) =
     [[((0x700, None), [CHR 0x5A, CHR 0x88, CHR 0x01])],
      [((0x700, None), [CHR 0x62, CHR 0xF1, CHR 0x81])],
      [((0x750, Some 0x6d), [CHR 0x5A, CHR 0x88, CHR 0x01])],
      [((0x750, Some 0x6d), [CHR 0x62, CHR 0xF1, CHR 0x81])]]"
  by (simp add: merged_results_def demo_calls demo_transport_def)


lemma demo_q_calls:
  "q_calls (snd (get_fw_versions demo_transport 0 REQUESTS scan_versions None (0.1 :: real)))
     = planned_calls 0.1 REQUESTS (query_plan scan_versions None)"
  by (simp add: get_fw_versions_snd orchestrate_calls)

text \<open>The timeouts of the run: 0.2 in group 0, 0.1 in group 1.\<close>

theorem timeout_doubling_witness:
  "map (\<lambda>ic. (fst ic, c_timeout (snd ic)))
     (q_calls (snd (get_fw_versions demo_transport 0 REQUESTS scan_versions None (0.1 :: real))))
     = [(0, 0.2), (0, 0.2), (0, 0.2), (1, 0.1), (1, 0.1), (1, 0.1)]"
  using timeout_doubling [of demo_transport 0 REQUESTS scan_versions None "0.1"]
  by (simp add: demo_q_calls demo_calls)

text \<open>The address lists of the run: of eight catalog entries, the three of Toyota are invoked.\<close>

theorem transport_called_on_filtered_chunks_witness:
  "map (\<lambda>ic. (fst ic, c_addrs (snd ic)))
     (q_calls (snd (get_fw_versions demo_transport 0 REQUESTS scan_versions None (0.1 :: real))))
     = [(0, [(0x700, None)]), (0, [(0x700, None)]), (0, [(0x700, None)]),
        (1, [(0x750, Some 0x6d)]), (1, [(0x750, Some 0x6d)]), (1, [(0x750, Some 0x6d)])]
   \<and> length REQUESTS = 8
   \<and> chunk_addrs ''honda'' [(''toyota'', 0x700, None)] = []
   \<and> chunk_addrs ''honda'' [(''toyota'', 0x700, None), (''any'', 0x7e0, None)] = [(0x7e0, None)]"
proof -
  have a: "map (\<lambda>ic. (fst ic, c_addrs (snd ic)))
     (q_calls (snd (get_fw_versions demo_transport 0 REQUESTS scan_versions None (0.1 :: real))))
     = [(0, [(0x700, None)]), (0, [(0x700, None)]), (0, [(0x700, None)]),
        (1, [(0x750, Some 0x6d)]), (1, [(0x750, Some 0x6d)]), (1, [(0x750, Some 0x6d)])]"
    by (simp add: demo_q_calls demo_calls)
  have b: "length REQUESTS = 8"
    by (simp add: REQUESTS_def)
  have c: "chunk_addrs ''honda'' [(''toyota'', 0x700, None)] = []"
    "chunk_addrs ''honda'' [(''toyota'', 0x700, None), (''any'', 0x7e0, None)] = [(0x7e0, None)]"
    by (simp_all add: chunk_addrs_def)
  show ?thesis
    using transport_called_on_filtered_chunks [of demo_transport 0 REQUESTS scan_versions None
        "0.1" "''honda''" "[(''toyota'', 0x700, None)]"] a b c
    by simp
qed

text \<open>The observations of the run: the last dialect that answered gives the value.\<close>

theorem observations_last_write_wins_witness:
  "dict_wf (q_fw_versions (snd (get_fw_versions demo_transport 0 REQUESTS scan_versions None (0.1 :: real))))
   \<and> dict_get (q_fw_versions (snd (get_fw_versions demo_transport 0 REQUESTS scan_versions None (0.1 :: real))))
       (0x700, None) = Some [CHR 0x62, CHR 0xF1, CHR 0x81]
   \<and> merged_results demo_transport 0 REQUESTS scan_versions None (0.1 :: real) =
     [[((0x700, None), [CHR 0x5A, CHR 0x88, CHR 0x01])],
      [((0x700, None), [CHR 0x62, CHR 0xF1, CHR 0x81])],
      [((0x750, Some 0x6d), [CHR 0x5A, CHR 0x88, CHR 0x01])],
      [((0x750, Some 0x6d), [CHR 0x62, CHR 0xF1, CHR 0x81])]]
   \<and> dict_wf [((0x700 :: address, None :: sub_address option), [CHR 0x62, CHR 0xF1, CHR 0x81])]"
  using observations_last_write_wins [of demo_transport 0 REQUESTS scan_versions None "0.1"
      "(0x700, None)" "[((0x700, None), [CHR 0x62, CHR 0xF1, CHR 0x81])]"]
  by (simp add: demo_merged dict_keys_def dict_get_def dict_wf_def)

section \<open>Properties of the result\<close>

subsection \<open>The messages built from the observations\<close>

lemma car_fw_body_fields:
  assumes "car_fw_body types ((a, s), v) = Inr f"
  shows "address f = a" "fwVersion f = v" "subAddress f = (case s of None \<Rightarrow> 0 | Some x \<Rightarrow> x)"
    "dict_get types (Tuple2 a s) = Some (ecu f)"
  using assms
  by (auto simp: car_fw_body_def new_message_def Let_def split: option.splits)

lemma car_fw_body_not_raised: "car_fw_body types item \<noteq> Inl (Raised e)"
  by (auto simp: car_fw_body_def Let_def split: option.splits prod.splits)

lemma car_fw_body_total:
  "dict_get types (Tuple2 (fst k) (snd k)) \<noteq> None \<Longrightarrow> \<exists>f. car_fw_body types (k, v) = Inr f"
  by (auto simp: car_fw_body_def Let_def split: option.splits)

lemma fw_versions_dict_loop_key:
  "fw_versions_dict_loop d (f # fs) =
     fw_versions_dict_loop (dict_set d (car_fw_key f) (fwVersion f)) fs"
  by (simp add: car_fw_key_def Let_def)

lemma car_fw_loop_not_raised: "car_fw_loop types acc obs \<noteq> Inl (Raised (e :: 'x))"
proof (induction obs arbitrary: acc)
  case Nil
  show ?case by simp
next
  case (Cons item obs)
  show ?case
    using car_fw_body_not_raised [of types item e] Cons.IH
    by (cases "car_fw_body types item :: 'x py_error + CarFw") auto
qed

lemma car_fw_loop_total:
  "(\<forall>k \<in> set (dict_keys obs). dict_get types (Tuple2 (fst k) (snd k)) \<noteq> None) \<Longrightarrow>
   \<exists>fs. car_fw_loop types acc obs = (Inr fs :: 'x py_error + CarFw list)"
proof (induction obs arbitrary: acc)
  case Nil
  show ?case by simp
next
  case (Cons item obs)
  obtain k v where item: "item = (k, v)" by (cases item)
  have "dict_get types (Tuple2 (fst k) (snd k)) \<noteq> None"
    using Cons.prems by (simp add: item dict_keys_def)
  then obtain f where f: "car_fw_body types (k, v) = (Inr f :: 'x py_error + CarFw)"
    using car_fw_body_total by blast
  have "\<forall>k \<in> set (dict_keys obs). dict_get types (Tuple2 (fst k) (snd k)) \<noteq> None"
    using Cons.prems by (simp add: dict_keys_def)
  then show ?case
    using Cons.IH [of "acc @ [f]"] by (simp add: item f)
qed

lemma car_fw_loop_items:
  "car_fw_loop types acc obs = (Inr fs :: 'x py_error + CarFw list) \<Longrightarrow>
   \<exists>gs. fs = acc @ gs
     \<and> list_all2 (\<lambda>item f. car_fw_body types item = (Inr f :: 'x py_error + CarFw)) obs gs"
proof (induction obs arbitrary: acc)
  case Nil
  then show ?case by simp
next
  case (Cons item obs)
  from Cons.prems obtain f where f: "car_fw_body types item = (Inr f :: 'x py_error + CarFw)"
    by (cases "car_fw_body types item :: 'x py_error + CarFw") auto
  with Cons.prems have "car_fw_loop types (acc @ [f]) obs = (Inr fs :: 'x py_error + CarFw list)"
    by simp
  then obtain gs where "fs = (acc @ [f]) @ gs"
    "list_all2 (\<lambda>item f. car_fw_body types item = (Inr f :: 'x py_error + CarFw)) obs gs"
    using Cons.IH by blast
  with f show ?case
    by (intro exI [of _ "f # gs"]) simp
qed

lemma list_all2_map_eq:
  "list_all2 P xs ys \<Longrightarrow> (\<And>x y. P x y \<Longrightarrow> g y = h x) \<Longrightarrow> map g ys = map h xs"
  by (induction rule: list_all2_induct) simp_all

lemma car_fw_loop_keys:
  assumes "car_fw_loop types [] obs = (Inr fs :: 'x py_error + CarFw list)"
  shows "map car_fw_key fs = map (\<lambda>item. (fst (fst item), if snd (fst item) = Some 0 then None else snd (fst item))) obs"
    and "map fwVersion fs = map snd obs"
    and "map address fs = map (\<lambda>item. fst (fst item)) obs"
    and "map subAddress fs = map (\<lambda>item. case snd (fst item) of None \<Rightarrow> 0 | Some x \<Rightarrow> x) obs"
proof -
  from car_fw_loop_items [OF assms]
  have all: "list_all2 (\<lambda>item f. car_fw_body types item = (Inr f :: 'x py_error + CarFw)) obs fs"
    by simp
  have one: "car_fw_key f = (fst (fst item), if snd (fst item) = Some 0 then None else snd (fst item))
      \<and> fwVersion f = snd item \<and> address f = fst (fst item)
      \<and> subAddress f = (case snd (fst item) of None \<Rightarrow> 0 | Some x \<Rightarrow> x)"
    if "car_fw_body types item = (Inr f :: 'x py_error + CarFw)" for item f
  proof -
    obtain a s v where item: "item = ((a, s), v)" by (cases item) auto
    show ?thesis
      using car_fw_body_fields [OF that [unfolded item]]
      by (auto simp: item car_fw_key_def split: option.splits)
  qed
  show "map car_fw_key fs = map (\<lambda>item. (fst (fst item), if snd (fst item) = Some 0 then None else snd (fst item))) obs"
    by (rule list_all2_map_eq [OF all]) (simp add: one)
  show "map fwVersion fs = map snd obs"
    by (rule list_all2_map_eq [OF all]) (simp add: one)
  show "map address fs = map (\<lambda>item. fst (fst item)) obs"
    by (rule list_all2_map_eq [OF all]) (simp add: one)
  show "map subAddress fs = map (\<lambda>item. case snd (fst item) of None \<Rightarrow> 0 | Some x \<Rightarrow> x) obs"
    by (rule list_all2_map_eq [OF all]) (simp add: one)
qed

subsection \<open>The sub-address between discovery and matching\<close>

text \<open>
  Claim C10. The message built for the observation key \<open>(a, s)\<close> holds the sub-address
  of \<open>s\<close>, or the default 0 when \<open>s\<close> is \<open>None\<close>; the matcher files it under
  \<open>(a, s)\<close> when \<open>s\<close> is \<open>None\<close> or a non-zero sub-address, and under \<open>(a, None)\<close>
  when \<open>s\<close> is the sub-address 0. So an observation at sub-address 0 is matched as if it
  had no sub-address. The same holds for the whole list that \<^verbatim>\<open>get_fw_versions\<close>
  returns.
\<close>

theorem sub_address_zero_read_as_none:
  "(car_fw_body types ((a, s), v) = (Inr f :: 'x py_error + CarFw) \<longrightarrow>
      subAddress f = (case s of None \<Rightarrow> 0 | Some x \<Rightarrow> x)
      \<and> car_fw_key f = (a, if s = Some 0 then None else s)
      \<and> fw_versions_dict_loop [] [f] = [((a, if s = Some 0 then None else s), v)])
   \<and> (car_fw_body types ((a, s), v) = (Inr f :: 'x py_error + CarFw) \<and> s \<noteq> Some 0 \<longrightarrow>
      observed [f] (a, s) = Some v)
   \<and> (car_fw_body types ((a, Some 0), v) = (Inr f :: 'x py_error + CarFw) \<longrightarrow>
      observed [f] (a, None) = Some v \<and> observed [f] (a, Some 0) = None)
   \<and> (fst (get_fw_versions (tr :: ('s, 't::semiring_numeral, 'x) transport) w R versions extra
          timeout) = Inr fs \<longrightarrow>
      map car_fw_key fs
        = map (\<lambda>item. (fst (fst item), if snd (fst item) = Some 0 then None else snd (fst item)))
            (q_fw_versions (snd (get_fw_versions tr w R versions extra timeout))))"
proof (intro conjI impI)
  assume b: "car_fw_body types ((a, s), v) = (Inr f :: 'x py_error + CarFw)"
  note f = car_fw_body_fields [OF b]
  show "subAddress f = (case s of None \<Rightarrow> 0 | Some x \<Rightarrow> x)" by (rule f(3))
  show k: "car_fw_key f = (a, if s = Some 0 then None else s)"
    using f by (auto simp: car_fw_key_def split: option.splits)
  show "fw_versions_dict_loop [] [f] = [((a, if s = Some 0 then None else s), v)]"
    unfolding fw_versions_dict_loop_key k by (simp add: f(2))
next
  assume b: "car_fw_body types ((a, s), v) = (Inr f :: 'x py_error + CarFw) \<and> s \<noteq> Some 0"
  note f = car_fw_body_fields [OF b [THEN conjunct1]]
  have "car_fw_key f = (a, s)"
    using f b by (auto simp: car_fw_key_def split: option.splits)
  then show "observed [f] (a, s) = Some v"
    unfolding observed_def fw_versions_dict_loop_key by (simp add: f(2) dict_get_def)
next
  assume b: "car_fw_body types ((a, Some 0), v) = (Inr f :: 'x py_error + CarFw)"
  note f = car_fw_body_fields [OF b]
  have "car_fw_key f = (a, None)"
    using f by (auto simp: car_fw_key_def)
  then show "observed [f] (a, None) = Some v" "observed [f] (a, Some 0) = None"
    unfolding observed_def fw_versions_dict_loop_key by (simp_all add: f(2) dict_get_def)
next
  assume "fst (get_fw_versions tr w R versions extra timeout) = Inr fs"
  then have "car_fw_loop (ecu_types (planner versions extra)) []
      (q_fw_versions (snd (get_fw_versions tr w R versions extra timeout)))
      = (Inr fs :: 'x py_error + CarFw list)"
    by (simp add: get_fw_versions_def Let_def)
  then show "map car_fw_key fs
        = map (\<lambda>item. (fst (fst item), if snd (fst item) = Some 0 then None else snd (fst item)))
            (q_fw_versions (snd (get_fw_versions tr w R versions extra timeout)))"
    by (rule car_fw_loop_keys(1))
qed


subsection \<open>A concrete run, continued\<close>

lemma orchestrate_fw_versions:
  "q_fw_versions (orchestrate tr w R versions extra timeout)
     = foldl dict_update [] (merged_results tr w R versions extra timeout)"
  by (simp add: orchestrate_exec exec_calls_fw_versions initial_query_state_def merged_results_def)

lemma orchestrate_warnings:
  "q_warnings (orchestrate tr w R versions extra timeout)
     = length (failures (outcomes tr w (map snd (planned_calls timeout R (query_plan versions extra)))))"
  by (simp add: orchestrate_exec exec_calls_warnings initial_query_state_def)

lemma demo_ecu_types:
  "ecu_types (planner scan_versions None)
     = [(Tuple2 0x700 None, engine), (Tuple2 0x750 (Some 0x6d), fwdCamera)]"
  by (simp add: planner_def versions_with_extra_def scan_versions_def
      brands_loop_def cars_loop_def keys_loop_def keys_body_def dict_keys_def
      dict_values_def Let_def)

lemma demo_fw_versions:
  "q_fw_versions (orchestrate demo_transport 0 REQUESTS scan_versions None (0.1 :: real))
     = [((0x700, None), [CHR 0x62, CHR 0xF1, CHR 0x81]),
        ((0x750, Some 0x6d), [CHR 0x62, CHR 0xF1, CHR 0x81])]"
  by (simp add: orchestrate_fw_versions demo_merged)

lemma demo_result:
  "fst (get_fw_versions demo_transport 0 REQUESTS scan_versions None (0.1 :: real))
     = Inr [\<lparr>ecu = engine, fwVersion = [CHR 0x62, CHR 0xF1, CHR 0x81], address = 0x700,
              subAddress = 0\<rparr>,
            \<lparr>ecu = fwdCamera, fwVersion = [CHR 0x62, CHR 0xF1, CHR 0x81], address = 0x750,
              subAddress = 0x6d\<rparr>]"
  by (simp add: get_fw_versions_def Let_def demo_fw_versions demo_ecu_types car_fw_body_def
      dict_get_def new_message_def)

text \<open>Concrete messages, with sub-address 0x6d and with sub-address 0, and the run.\<close>

theorem sub_address_zero_read_as_none_witness:
  "car_fw_body [(Tuple2 0x750 (Some 0x6d), fwdCamera), (Tuple2 0x750 (Some 0), unknown)]
       ((0x750, Some 0x6d), ''v'')
     = (Inr \<lparr>ecu = fwdCamera, fwVersion = ''v'', address = 0x750, subAddress = 0x6d\<rparr>
        :: string py_error + CarFw)
   \<and> car_fw_key \<lparr>ecu = fwdCamera, fwVersion = ''v'', address = 0x750, subAddress = 0x6d\<rparr>
     = (0x750, Some 0x6d)
   \<and> observed [\<lparr>ecu = fwdCamera, fwVersion = ''v'', address = 0x750, subAddress = 0x6d\<rparr>]
       (0x750, Some 0x6d) = Some ''v''
   \<and> car_fw_body [(Tuple2 0x750 (Some 0x6d), fwdCamera), (Tuple2 0x750 (Some 0), unknown)]
       ((0x750, Some 0), ''z'')
     = (Inr \<lparr>ecu = unknown, fwVersion = ''z'', address = 0x750, subAddress = 0\<rparr>
        :: string py_error + CarFw)
   \<and> observed [\<lparr>ecu = unknown, fwVersion = ''z'', address = 0x750, subAddress = 0\<rparr>]
       (0x750, None) = Some ''z''
   \<and> observed [\<lparr>ecu = unknown, fwVersion = ''z'', address = 0x750, subAddress = 0\<rparr>]
       (0x750, Some 0) = None
   \<and> map car_fw_key
        [\<lparr>ecu = engine, fwVersion = [CHR 0x62, CHR 0xF1, CHR 0x81], address = 0x700,
           subAddress = 0\<rparr>,
         \<lparr>ecu = fwdCamera, fwVersion = [CHR 0x62, CHR 0xF1, CHR 0x81], address = 0x750,
           subAddress = 0x6d\<rparr>]
      = [(0x700, None), (0x750, Some 0x6d)]"
proof -
  let ?types = "[(Tuple2 0x750 (Some 0x6d), fwdCamera), (Tuple2 0x750 (Some 0), unknown)]"
  let ?f = "\<lparr>ecu = fwdCamera, fwVersion = ''v'', address = 0x750, subAddress = 0x6d\<rparr>"
  let ?g = "\<lparr>ecu = unknown, fwVersion = ''z'', address = 0x750, subAddress = 0\<rparr>"
  have f: "car_fw_body ?types ((0x750, Some 0x6d), ''v'') = (Inr ?f :: string py_error + CarFw)"
    by (simp add: car_fw_body_def dict_get_def new_message_def)
  have g: "car_fw_body ?types ((0x750, Some 0), ''z'') = (Inr ?g :: string py_error + CarFw)"
    by (simp add: car_fw_body_def dict_get_def new_message_def)
  have ne: "Some (0x6d :: sub_address) \<noteq> Some 0"
    by simp
  show ?thesis
    using sub_address_zero_read_as_none [where 'x = string and types = ?types and a = "0x750"
        and s = "Some 0x6d" and v = "''v''" and f = ?f and tr = demo_transport and w = 0
        and R = REQUESTS and versions = scan_versions and extra = None and timeout = "0.1"
        and fs = "projr (fst (get_fw_versions demo_transport 0 REQUESTS scan_versions None
          (0.1 :: real)))"]
      sub_address_zero_read_as_none [where 'x = string and types = ?types and a = "0x750"
        and s = "Some 0" and v = "''z''" and f = ?g and tr = demo_transport and w = 0
        and R = REQUESTS and versions = scan_versions and extra = None and timeout = "0.1"
        and fs = "[]"]
      f g ne demo_result
    by (simp add: demo_fw_versions get_fw_versions_snd)
qed


subsection \<open>Every observed key has its ECU type\<close>

lemma successes_append: "successes (xs @ ys) = successes xs @ successes ys"
  by (induction xs rule: successes.induct) simp_all

lemma in_successes_outcomes:
  "r \<in> set (successes (outcomes tr w cs)) \<Longrightarrow> \<exists>c \<in> set cs. \<exists>w'. fst (tr w' c) = Inr r"
proof (induction cs arbitrary: w)
  case Nil
  then show ?case by simp
next
  case (Cons c cs)
  show ?case
  proof (cases "fst (tr w c)")
    case (Inl e)
    with Cons.prems have "r \<in> set (successes (outcomes tr (snd (tr w c)) cs))" by simp
    from Cons.IH [OF this] show ?thesis by auto
  next
    case (Inr d)
    with Cons.prems have "r = d \<or> r \<in> set (successes (outcomes tr (snd (tr w c)) cs))"
      by auto
    then show ?thesis
    proof
      assume "r = d"
      with Inr show ?thesis by auto
    next
      assume "r \<in> set (successes (outcomes tr (snd (tr w c)) cs))"
      from Cons.IH [OF this] show ?thesis by auto
    qed
  qed
qed

lemma set_chunk_subset: "ch \<in> set (chunks l n) \<Longrightarrow> set ch \<subseteq> set l"
proof (induction l n rule: chunks.induct)
  case (1 l n)
  show ?case
  proof (cases "l = [] \<or> n = 0")
    case True
    with 1(2) show ?thesis by (simp add: chunks.simps)
  next
    case False
    with 1(2) have "ch = take n l \<or> ch \<in> set (chunks (drop n l) n)"
      by (subst (asm) chunks.simps) auto
    then show ?thesis
    proof
      assume "ch = take n l"
      then show ?thesis by (auto dest: in_set_takeD)
    next
      assume "ch \<in> set (chunks (drop n l) n)"
      with False 1(1) have "set ch \<subseteq> set (drop n l)" by simp
      then show ?thesis by (auto dest: in_set_dropD)
    qed
  qed
qed

lemma plan_group_probed:
  assumes "i < length (query_plan versions extra)"
  shows "set (query_plan versions extra ! i) \<subseteq> set (probed versions extra)"
proof (cases i)
  case 0
  then show ?thesis
    using planner_parallel(1) [of versions extra] by (auto simp: query_plan_def plan_of_def)
next
  case (Suc j)
  with assms have "addrs (planner versions extra) ! j \<in> set (addrs (planner versions extra))"
    by (simp add: query_plan_def plan_of_def)
  then have "addrs (planner versions extra) ! j
      \<in> {[t] | t. t \<in> set (probed versions extra) \<and> snd (snd t) \<noteq> None}"
    using planner_addrs(1) [of versions extra] by simp
  then show ?thesis
    using Suc by (auto simp: query_plan_def plan_of_def)
qed

lemma probed_has_ecu_type:
  assumes "(b, a, s) \<in> set (probed versions extra)"
  shows "dict_get (ecu_types (planner versions extra)) (Tuple2 a s) \<noteq> None"
proof -
  from assms obtain x where x: "x \<in> set (table_entries (versions_with_extra versions extra))"
    "triple_of x = (b, a, s)"
    by (auto simp: probed_def table_triples_def)
  obtain b' e a' s' where x': "x = (b', e, a', s')" by (cases x) auto
  with x have "(b, e, a, s) \<in> set (table_entries (versions_with_extra versions extra))" by simp
  then have "Tuple2 a s \<in> set (map (\<lambda>(b, e, a, s). Tuple2 a s)
      (table_entries (versions_with_extra versions extra)))"
    by force
  then have "Tuple2 a s \<in> set (dict_keys (ecu_types (planner versions extra)))"
    unfolding planner_entries
    by (subst fold_ecu_types_keys) (simp_all add: pairs_only_def dict_keys_def)
  then show ?thesis
    by (simp add: dict_get_def dict_keys_def map_of_eq_None_iff)
qed

lemma observed_keys_probed:
  assumes tr: "answers_asked tr"
    and k: "k \<in> set (dict_keys (q_fw_versions (orchestrate tr w R versions extra timeout)))"
  shows "\<exists>b. (b, fst k, snd k) \<in> set (probed versions extra)"
proof -
  from k obtain r where r: "r \<in> set (merged_results tr w R versions extra timeout)"
    "k \<in> set (dict_keys r)"
    unfolding orchestrate_fw_versions merge_keys by (auto simp: dict_keys_def)
  from r(1) have "\<exists>c \<in> set (map snd (planned_calls timeout R (query_plan versions extra))).
      \<exists>w'. fst (tr w' c) = Inr r"
    unfolding merged_results_def by (rule in_successes_outcomes)
  then obtain ic w' where ic: "ic \<in> set (planned_calls timeout R (query_plan versions extra))"
    and res: "fst (tr w' (snd ic)) = Inr r"
    by force
  from tr res r(2) have asked: "k \<in> set (c_addrs (snd ic))"
    unfolding answers_asked_def by blast
  from ic obtain i ch e where i: "i < length (query_plan versions extra)"
    and ch: "ch \<in> set (chunks (query_plan versions extra ! i) 128)"
    and c: "ic = (i, the_call timeout i ch e)"
    unfolding in_planned_calls by blast
  have "c_addrs (snd ic) = chunk_addrs (fst e) ch"
    unfolding c by (simp add: the_call_def split: prod.splits)
  with asked have "k \<in> set (chunk_addrs (fst e) ch)" by simp
  then obtain b where "(b, fst k, snd k) \<in> set ch"
    unfolding set_chunk_addrs by auto
  with set_chunk_subset [OF ch] plan_group_probed [OF i] show ?thesis by blast
qed

lemma get_fw_versions_returns:
  assumes "answers_asked (tr :: ('s, 't::semiring_numeral, 'x) transport)"
  shows "\<exists>fs. fst (get_fw_versions tr w R versions extra timeout) = Inr fs"
proof -
  have "\<forall>k \<in> set (dict_keys (q_fw_versions (orchestrate tr w R versions extra timeout))).
      dict_get (ecu_types (planner versions extra)) (Tuple2 (fst k) (snd k)) \<noteq> None"
    using observed_keys_probed [OF assms] probed_has_ecu_type by blast
  from car_fw_loop_total [OF this, where 'x = 'x, of "[]"] show ?thesis
    by (simp add: get_fw_versions_def Let_def)
qed


subsection \<open>Failures of the transport\<close>

lemma merge_untouched:
  "(\<forall>r \<in> set rs. k \<notin> set (dict_keys r)) \<Longrightarrow> dict_get (foldl dict_update d rs) k = dict_get d k"
proof -
  assume "\<forall>r \<in> set rs. k \<notin> set (dict_keys r)"
  then have "filter (\<lambda>r. k \<in> set (dict_keys r)) rs = []"
    by (simp add: filter_empty_conv)
  then show ?thesis
    using merge_last_wins [of d rs k] by simp
qed

lemma dict_get_Nil: "dict_get [] k = None"
  by (simp add: dict_get_def)

lemma merge_isolated:
  assumes d: "dict_get (dict_update [] d) k = Some v"
    and post: "\<forall>r \<in> set (successes post). k \<notin> set (dict_keys r)"
  shows "dict_get (foldl dict_update [] (successes (pre @ Inr d # post))) k = Some v"
proof -
  from d have "map_of (rev d) k = Some v"
    unfolding dict_get_update dict_get_Nil by (simp split: option.splits)
  then have "dict_get (dict_update (foldl dict_update [] (successes pre)) d) k = Some v"
    by (simp add: dict_get_update)
  then show ?thesis
    using merge_untouched [OF post] by (simp add: successes_append)
qed

lemma car_fw_loop_record:
  assumes loop: "car_fw_loop types [] obs = (Inr fs :: 'x py_error + CarFw list)"
    and item: "(k, v) \<in> set obs"
  shows "\<exists>f \<in> set fs. address f = fst k
           \<and> subAddress f = (case snd k of None \<Rightarrow> 0 | Some x \<Rightarrow> x) \<and> fwVersion f = v"
proof -
  from car_fw_loop_items [OF loop]
  have all: "list_all2 (\<lambda>item f. car_fw_body types item = (Inr f :: 'x py_error + CarFw)) obs fs"
    by simp
  from item obtain n where n: "n < length obs" "obs ! n = (k, v)"
    by (auto simp: in_set_conv_nth)
  with all have f: "car_fw_body types (k, v) = (Inr (fs ! n) :: 'x py_error + CarFw)"
    and len: "n < length fs"
    by (auto simp: list_all2_conv_all_nth)
  obtain a s where k: "k = (a, s)" by (cases k)
  from car_fw_body_fields [OF f [unfolded k]] len show ?thesis
    by (intro bexI [of _ "fs ! n"]) (simp_all add: k)
qed

text \<open>
  Claim C4. \<^verbatim>\<open>get_fw_versions\<close> never raises an exception of the transport. An
  invocation that raises leaves \<^verbatim>\<open>fw_versions\<close> as it was and logs one warning. The
  invocations made do not depend on what the transport answers, so the loop goes on to the
  next catalog entry, chunk and group after a failure; the warnings logged are as many as
  the invocations that raised. With a transport that answers only addresses it was asked,
  \<^verbatim>\<open>get_fw_versions\<close> returns a list. And when an invocation returns a value for a key,
  and no later successful invocation returns that key, the final observations and the
  returned list hold that value, whatever other invocations raised.
\<close>

theorem transport_errors_are_caught:
  "fst (get_fw_versions (tr :: ('s, 't::semiring_numeral, 'x) transport) w R versions extra timeout)
     \<noteq> Inl (Raised e)
   \<and> (chunk_addrs (fst r) ch \<noteq> [] \<and> fst (tr (q_world st) (the_call timeout i ch r)) = Inl x \<longrightarrow>
        q_fw_versions (request_body tr timeout i ch st r) = q_fw_versions st
        \<and> q_warnings (request_body tr timeout i ch st r) = q_warnings st + 1)
   \<and> q_calls (snd (get_fw_versions tr w R versions extra timeout))
       = q_calls (snd (get_fw_versions (tr' :: ('s2, 't, 'x2) transport) w' R versions extra timeout))
   \<and> q_warnings (snd (get_fw_versions tr w R versions extra timeout))
       = length (failures (outcomes tr w
           (map snd (q_calls (snd (get_fw_versions tr w R versions extra timeout))))))
   \<and> (answers_asked tr \<longrightarrow> (\<exists>fs. fst (get_fw_versions tr w R versions extra timeout) = Inr fs))
   \<and> (outcomes tr w (map snd (q_calls (snd (get_fw_versions tr w R versions extra timeout))))
         = pre @ Inr d # post
       \<and> dict_get (dict_update [] d) k = Some v
       \<and> (\<forall>r \<in> set (successes post). k \<notin> set (dict_keys r)) \<longrightarrow>
        dict_get (q_fw_versions (snd (get_fw_versions tr w R versions extra timeout))) k = Some v
        \<and> (\<forall>fs. fst (get_fw_versions tr w R versions extra timeout) = Inr fs \<longrightarrow>
             (\<exists>f \<in> set fs. address f = fst k
                \<and> subAddress f = (case snd k of None \<Rightarrow> 0 | Some x \<Rightarrow> x) \<and> fwVersion f = v)))"
proof -
  let ?q = "orchestrate tr w R versions extra timeout"
  have raised: "fst (get_fw_versions tr w R versions extra timeout) \<noteq> Inl (Raised e)"
    using car_fw_loop_not_raised [of "ecu_types (planner versions extra)" "[]" "q_fw_versions ?q" e]
    by (simp add: get_fw_versions_def Let_def)
  have body: "q_fw_versions (request_body tr timeout i ch st r) = q_fw_versions st
        \<and> q_warnings (request_body tr timeout i ch st r) = q_warnings st + 1"
    if "chunk_addrs (fst r) ch \<noteq> [] \<and> fst (tr (q_world st) (the_call timeout i ch r)) = Inl x"
    using that by (simp add: request_body_exec exec_call_fields)
  have calls: "q_calls (snd (get_fw_versions tr w R versions extra timeout))
       = q_calls (snd (get_fw_versions tr' w' R versions extra timeout))"
    by (simp add: get_fw_versions_snd orchestrate_calls)
  have warn: "q_warnings (snd (get_fw_versions tr w R versions extra timeout))
       = length (failures (outcomes tr w
           (map snd (q_calls (snd (get_fw_versions tr w R versions extra timeout))))))"
    by (simp add: get_fw_versions_snd orchestrate_calls orchestrate_warnings)
  have ret: "\<exists>fs. fst (get_fw_versions tr w R versions extra timeout) = Inr fs"
    if "answers_asked tr"
    using that by (rule get_fw_versions_returns)
  have iso: "dict_get (q_fw_versions (snd (get_fw_versions tr w R versions extra timeout))) k = Some v
        \<and> (\<forall>fs. fst (get_fw_versions tr w R versions extra timeout) = Inr fs \<longrightarrow>
             (\<exists>f \<in> set fs. address f = fst k
                \<and> subAddress f = (case snd k of None \<Rightarrow> 0 | Some x \<Rightarrow> x) \<and> fwVersion f = v))"
    if a: "outcomes tr w (map snd (q_calls (snd (get_fw_versions tr w R versions extra timeout))))
         = pre @ Inr d # post
       \<and> dict_get (dict_update [] d) k = Some v
       \<and> (\<forall>r \<in> set (successes post). k \<notin> set (dict_keys r))"
  proof -
    from a have o: "outcomes tr w (map snd (planned_calls timeout R (query_plan versions extra)))
        = pre @ Inr d # post"
      by (simp add: get_fw_versions_snd orchestrate_calls)
    have obs: "dict_get (q_fw_versions ?q) k = Some v"
      unfolding orchestrate_fw_versions merged_results_def o
      using a by (intro merge_isolated) simp_all
    then have item: "(k, v) \<in> set (q_fw_versions ?q)"
      by (simp add: dict_get_def map_of_SomeD)
    have "\<exists>f \<in> set fs. address f = fst k
           \<and> subAddress f = (case snd k of None \<Rightarrow> 0 | Some x \<Rightarrow> x) \<and> fwVersion f = v"
      if "fst (get_fw_versions tr w R versions extra timeout) = Inr fs" for fs
    proof -
      from that have "car_fw_loop (ecu_types (planner versions extra)) [] (q_fw_versions ?q)
          = (Inr fs :: 'x py_error + CarFw list)"
        by (simp add: get_fw_versions_def Let_def)
      from car_fw_loop_record [OF this item] show ?thesis .
    qed
    with obs show ?thesis
      by (simp add: get_fw_versions_snd)
  qed
  from raised body calls warn ret iso show ?thesis
    by blast
qed


text \<open>The run: two of its six invocations raise.\<close>

lemma demo_answers_asked: "answers_asked demo_transport"
  by (auto simp: answers_asked_def demo_transport_def dict_keys_def split: if_splits)

lemma demo_outcomes:
  "outcomes demo_transport 0
     (map snd (planned_calls (0.1 :: real) REQUESTS (query_plan scan_versions None)))
   = [Inr [((0x700, None), [CHR 0x5A, CHR 0x88, CHR 0x01])],
      Inl ''no response'',
      Inr [((0x700, None), [CHR 0x62, CHR 0xF1, CHR 0x81])],
      Inr [((0x750, Some 0x6d), [CHR 0x5A, CHR 0x88, CHR 0x01])],
      Inl ''no response'',
      Inr [((0x750, Some 0x6d), [CHR 0x62, CHR 0xF1, CHR 0x81])]]"
  by (simp add: demo_calls demo_transport_def)

text \<open>The outcome of the run: two warnings, and both addresses in the returned list.\<close>

theorem transport_errors_are_caught_witness:
  "answers_asked demo_transport
   \<and> outcomes demo_transport 0
       (map snd (q_calls (snd (get_fw_versions demo_transport 0 REQUESTS scan_versions None
          (0.1 :: real)))))
     = [Inr [((0x700, None), [CHR 0x5A, CHR 0x88, CHR 0x01])],
        Inl ''no response'',
        Inr [((0x700, None), [CHR 0x62, CHR 0xF1, CHR 0x81])],
        Inr [((0x750, Some 0x6d), [CHR 0x5A, CHR 0x88, CHR 0x01])],
        Inl ''no response'',
        Inr [((0x750, Some 0x6d), [CHR 0x62, CHR 0xF1, CHR 0x81])]]
   \<and> q_warnings (snd (get_fw_versions demo_transport 0 REQUESTS scan_versions None (0.1 :: real)))
     = 2
   \<and> dict_get (q_fw_versions (snd (get_fw_versions demo_transport 0 REQUESTS scan_versions None
        (0.1 :: real)))) (0x700, None) = Some [CHR 0x62, CHR 0xF1, CHR 0x81]
   \<and> fst (get_fw_versions demo_transport 0 REQUESTS scan_versions None (0.1 :: real))
     = Inr [\<lparr>ecu = engine, fwVersion = [CHR 0x62, CHR 0xF1, CHR 0x81], address = 0x700,
              subAddress = 0\<rparr>,
            \<lparr>ecu = fwdCamera, fwVersion = [CHR 0x62, CHR 0xF1, CHR 0x81], address = 0x750,
              subAddress = 0x6d\<rparr>]"
proof -
  have o: "outcomes demo_transport 0
       (map snd (q_calls (snd (get_fw_versions demo_transport 0 REQUESTS scan_versions None
          (0.1 :: real)))))
     = [Inr [((0x700, None), [CHR 0x5A, CHR 0x88, CHR 0x01])], Inl ''no response'']
       @ Inr [((0x700, None), [CHR 0x62, CHR 0xF1, CHR 0x81])]
       # [Inr [((0x750, Some 0x6d), [CHR 0x5A, CHR 0x88, CHR 0x01])],
          Inl ''no response'',
          Inr [((0x750, Some 0x6d), [CHR 0x62, CHR 0xF1, CHR 0x81])]]"
    by (simp add: demo_q_calls demo_outcomes)
  have d: "dict_get (dict_update [] [((0x700 :: address, None :: sub_address option),
        [CHR 0x62, CHR 0xF1, CHR 0x81])]) (0x700, None) = Some [CHR 0x62, CHR 0xF1, CHR 0x81]"
    by (simp add: dict_get_def)
  have p: "\<forall>r \<in> set (successes
        [Inr [((0x750 :: address, Some (0x6d :: sub_address)), [CHR 0x5A, CHR 0x88, CHR 0x01])],
         Inl ''no response'',
         Inr [((0x750, Some 0x6d), [CHR 0x62, CHR 0xF1, CHR 0x81])]]).
      (0x700, None) \<notin> set (dict_keys r)"
    by (simp add: dict_keys_def)
  show ?thesis
    using transport_errors_are_caught [where tr = demo_transport and w = 0 and R = REQUESTS
        and versions = scan_versions and extra = None and timeout = "0.1 :: real"
        and tr' = demo_transport and w' = 0
        and pre = "[Inr [((0x700, None), [CHR 0x5A, CHR 0x88, CHR 0x01])], Inl ''no response'']"
        and d = "[((0x700, None), [CHR 0x62, CHR 0xF1, CHR 0x81])]"
        and post = "[Inr [((0x750, Some 0x6d), [CHR 0x5A, CHR 0x88, CHR 0x01])],
          Inl ''no response'',
          Inr [((0x750, Some 0x6d), [CHR 0x62, CHR 0xF1, CHR 0x81])]]"
        and k = "(0x700, None)" and v = "[CHR 0x62, CHR 0xF1, CHR 0x81]"]
      o d p demo_answers_asked demo_result
    by simp
qed

end
